theory Spec2Isabelle
  imports Complex_Main
begin

section \<open>Common data: exceptions, Python values, arrays\<close>

text \<open>
  Every exception the modelled code of \<^verbatim>\<open>kwant/system.py\<close> raises is a value of
  \<open>error\<close>, carrying the message.  \<open>Raised\<close> stands for an exception raised by
  code outside this module (a lead's own methods, the external physics routines).
\<close>

datatype error =
    ValueError string
  | TypeError string
  | AssertionError string
  | IndexError string
  | AttributeError string
  | Raised string

abbreviation (input) sq :: string where
  "sq \<equiv> [CHR 0x27]"

text \<open>
  The Python values that are passed around untyped: \<open>None\<close>, booleans, integers and
  tuples.  \<open>truthy\<close> is Python's truth value of such an object.
\<close>

datatype pyval = PyNone | PyBool bool | PyInt int | PyTuple "pyval list"

fun truthy :: "pyval \<Rightarrow> bool" where
  "truthy PyNone = False"
| "truthy (PyBool b) = b"
| "truthy (PyInt i) = (i \<noteq> 0)"
| "truthy (PyTuple vs) = (vs \<noteq> [])"

text \<open>Python's builtin \<^verbatim>\<open>any\<close> over a sequence of such values.\<close>

fun any_py :: "pyval list \<Rightarrow> bool" where
  "any_py [] = False"
| "any_py (v # vs) = (if truthy v then True else any_py vs)"

section \<open>\<^verbatim>\<open>NoSymmetry.subgroup\<close>\<close>

text \<open>
  \<^verbatim>\<open>NoSymmetry\<close> defines neither \<^verbatim>\<open>__init__\<close> nor \<^verbatim>\<open>__new__\<close>, and neither do its
  base class \<^verbatim>\<open>Symmetry\<close> and the metaclass \<^verbatim>\<open>abc.ABCMeta\<close> for instances; all abstract
  methods are overridden.  Instantiation therefore goes through \<^verbatim>\<open>object\<close>, which
  accepts no argument besides the class.
\<close>

datatype no_symmetry = NoSymmetry

definition NoSymmetry_new :: "pyval list \<Rightarrow> error + no_symmetry" where
  "NoSymmetry_new cargs =
     (if cargs \<noteq> [] then Inl (TypeError ''NoSymmetry() takes no arguments'')
      else Inr NoSymmetry)"

text \<open>
  \<^verbatim>\<open>
  def subgroup(self, *generators):
      if any(generators):
          raise ValueError('Generators must be empty for NoSymmetry.')
      return NoSymmetry(generators)
  \<close>
  The tuple \<^verbatim>\<open>generators\<close> is handed on as one positional argument.
\<close>

definition subgroup :: "no_symmetry \<Rightarrow> pyval list \<Rightarrow> error + no_symmetry" where
  "subgroup self generators =
     (if any_py generators
      then Inl (ValueError ''Generators must be empty for NoSymmetry.'')
      else NoSymmetry_new [PyTuple generators])"

section \<open>\<^verbatim>\<open>InfiniteVectorizedSystem.hamiltonian_submatrix\<close>\<close>

text \<open>
  \<^verbatim>\<open>
  def hamiltonian_submatrix(self, args=(), sparse=False,
                            return_norb=False, *, params=None):
      raise ValueError(
          "'hamiltonian_submatrix' is not meaningful for infinite"
          "systems. Use 'cell_hamiltonian' or 'inter_cell_hopping."
      )
  \<close>
  The two adjacent literals are joined without a space.  A call is a list of positional
  values and a list of keyword bindings; Python binds them to the signature before the
  body runs and raises \<^verbatim>\<open>TypeError\<close> when there are more than three positional
  values, an unknown keyword, or a parameter bound twice.
\<close>

definition ivs_submatrix_message :: string where
  "ivs_submatrix_message =
     sq @ ''hamiltonian_submatrix'' @ sq @ '' is not meaningful for infinite'' @
     ''systems. Use '' @ sq @ ''cell_hamiltonian'' @ sq @ '' or '' @ sq @
     ''inter_cell_hopping.''"

definition ivs_hamiltonian_submatrix ::
  "pyval \<Rightarrow> pyval \<Rightarrow> pyval \<Rightarrow> pyval \<Rightarrow> error + 'm" where
  "ivs_hamiltonian_submatrix args sparse return_norb params =
     Inl (ValueError ivs_submatrix_message)"

definition ivs_positional_names :: "string list" where
  "ivs_positional_names = [''args'', ''sparse'', ''return_norb'']"

fun lookup_kw :: "(string \<times> pyval) list \<Rightarrow> string \<Rightarrow> pyval \<Rightarrow> pyval" where
  "lookup_kw [] name dflt = dflt"
| "lookup_kw ((k, v) # kws) name dflt = (if k = name then v else lookup_kw kws name dflt)"

fun bound_arg :: "pyval list \<Rightarrow> (string \<times> pyval) list \<Rightarrow> nat \<Rightarrow> pyval \<Rightarrow> pyval" where
  "bound_arg pos kws i dflt =
     (if i < length pos then pos ! i else lookup_kw kws (ivs_positional_names ! i) dflt)"

definition ivs_call ::
  "pyval list \<Rightarrow> (string \<times> pyval) list \<Rightarrow> error + 'm" where
  "ivs_call pos kws =
     (if length pos > 3
      then Inl (TypeError ''hamiltonian_submatrix() takes from 1 to 4 positional arguments'')
      else if list_ex (\<lambda>(k, v). k \<notin> set (ivs_positional_names @ [''params''])) kws
      then Inl (TypeError ''hamiltonian_submatrix() got an unexpected keyword argument'')
      else if list_ex (\<lambda>(k, v). k \<in> set (take (length pos) ivs_positional_names)) kws
      then Inl (TypeError ''hamiltonian_submatrix() got multiple values for argument'')
      else ivs_hamiltonian_submatrix
             (bound_arg pos kws 0 (PyTuple []))
             (bound_arg pos kws 1 (PyBool False))
             (bound_arg pos kws 2 (PyBool False))
             (lookup_kw kws ''params'' PyNone))"

section \<open>\<^verbatim>\<open>PrecalculatedLead\<close>\<close>

text \<open>
  The instance attributes \<^verbatim>\<open>_modes\<close>, \<^verbatim>\<open>_selfenergy\<close> and \<^verbatim>\<open>parameters\<close>; Python's
  \<^verbatim>\<open>None\<close> in the first two is \<open>None\<close> of the option type.
\<close>

record ('m, 's) precalculated_lead =
  pl_modes :: "'m option"
  pl_selfenergy :: "'s option"
  pl_parameters :: "string set"

definition PrecalculatedLead ::
  "'m option \<Rightarrow> 's option \<Rightarrow> error + ('m, 's) precalculated_lead" where
  "PrecalculatedLead modes_arg selfenergy_arg =
     (if modes_arg = None \<and> selfenergy_arg = None
      then Inl (ValueError ''No precalculated values provided.'')
      else Inr \<lparr>pl_modes = modes_arg, pl_selfenergy = selfenergy_arg, pl_parameters = {}\<rparr>)"

definition no_modes_message :: string where
  "no_modes_message =
     ''No precalculated modes were provided. '' @
     ''Consider using precalculate() with '' @
     ''what='' @ sq @ ''modes'' @ sq @ '' or what='' @ sq @ ''all'' @ sq"

definition no_selfenergy_message :: string where
  "no_selfenergy_message =
     ''No precalculated selfenergy was provided. '' @
     ''Consider using precalculate() with '' @
     ''what='' @ sq @ ''selfenergy'' @ sq @ '' or what='' @ sq @ ''all'' @ sq"

text \<open>
  The accessors take \<^verbatim>\<open>energy\<close>, \<^verbatim>\<open>args\<close> and \<^verbatim>\<open>params\<close> and ignore them.
\<close>

definition pl_modes_call ::
  "('m, 's) precalculated_lead \<Rightarrow> 'e \<Rightarrow> 'a \<Rightarrow> 'p \<Rightarrow> error + 'm" where
  "pl_modes_call self energy args params =
     (case pl_modes self of
        Some m \<Rightarrow> Inr m
      | None \<Rightarrow> Inl (ValueError no_modes_message))"

definition pl_selfenergy_call ::
  "('m, 's) precalculated_lead \<Rightarrow> 'e \<Rightarrow> 'a \<Rightarrow> 'p \<Rightarrow> error + 's" where
  "pl_selfenergy_call self energy args params =
     (case pl_selfenergy self of
        Some s \<Rightarrow> Inr s
      | None \<Rightarrow> Inl (ValueError no_selfenergy_message))"

text \<open>Whether one string occurs in another, to state what a message names.\<close>

fun is_prefix :: "string \<Rightarrow> string \<Rightarrow> bool" where
  "is_prefix [] ys = True"
| "is_prefix (x # xs) [] = False"
| "is_prefix (x # xs) (y # ys) = (x = y \<and> is_prefix xs ys)"

fun contains :: "string \<Rightarrow> string \<Rightarrow> bool" where
  "contains [] sub = (sub = [])"
| "contains (c # cs) sub = (is_prefix sub (c # cs) \<or> contains cs sub)"

section \<open>\<^verbatim>\<open>VectorizedSystem.site_ranges\<close>\<close>

text \<open>
  A site family with its optional \<^verbatim>\<open>norbs\<close>, and a site array: a family and one tag per
  site, so that \<^verbatim>\<open>len(arr)\<close> is the number of tags.
\<close>

record site_family =
  fam_name :: string
  fam_norbs :: "nat option"

record site_array =
  sa_family :: site_family
  sa_tags :: "int list list"

definition len_sa :: "site_array \<Rightarrow> nat" where
  "len_sa arr = length (sa_tags arr)"

text \<open>
  numpy makes an array of 64-bit signed integers from a list of Python integers that
  all fit, and adds in that type without a check: a sum that leaves the range comes
  back into it modulo \<open>2\<^sup>6\<^sup>4\<close>.
\<close>

definition fits_int64 :: "int \<Rightarrow> bool" where
  "fits_int64 n = (- (2 ^ 63) \<le> n \<and> n < 2 ^ 63)"

definition wrap_int64 :: "int \<Rightarrow> int" where
  "wrap_int64 n = (n + 2 ^ 63) mod 2 ^ 64 - 2 ^ 63"

text \<open>
  \<^verbatim>\<open>np.cumsum\<close> of an array of 64-bit integers: the running sums, each wrapped, as
  long as the sequence.
\<close>

fun cumsum_from :: "int \<Rightarrow> int list \<Rightarrow> int list" where
  "cumsum_from acc [] = []"
| "cumsum_from acc (x # xs) = wrap_int64 (acc + x) # cumsum_from (wrap_int64 (acc + x)) xs"

definition cumsum :: "int list \<Rightarrow> int list" where
  "cumsum xs = cumsum_from 0 xs"

text \<open>
  The list comprehension \<^verbatim>\<open>[len(arr) * arr.family.norbs for arr in self.site_arrays]\<close>:
  the product raises \<^verbatim>\<open>TypeError\<close> at the first array whose \<^verbatim>\<open>norbs\<close> is \<^verbatim>\<open>None\<close>.
\<close>

fun orbital_counts :: "site_array list \<Rightarrow> error + nat list" where
  "orbital_counts [] = Inr []"
| "orbital_counts (arr # arrs) =
     (case fam_norbs (sa_family arr) of
        None \<Rightarrow> Inl (TypeError ''unsupported operand type(s) for *: int and NoneType'')
      | Some n \<Rightarrow>
          (case orbital_counts arrs of
             Inl e \<Rightarrow> Inl e
           | Inr ns \<Rightarrow> Inr ((len_sa arr * n) # ns)))"

text \<open>
  \<^verbatim>\<open>np.array([site_offsets, norbs, orb_offsets]).transpose()\<close>: row \<open>k\<close> of the result
  holds entry \<open>k\<close> of each of the three sequences.
\<close>

fun transpose3 :: "'a list \<Rightarrow> 'a list \<Rightarrow> 'a list \<Rightarrow> ('a \<times> 'a \<times> 'a) list" where
  "transpose3 (a # as) (b # bs) (c # cs) = (a, b, c) # transpose3 as bs cs"
| "transpose3 _ _ _ = []"

text \<open>
  \<^verbatim>\<open>
  def site_ranges(self):
      site_offsets = np.cumsum([0] + [len(arr) for arr in self.site_arrays])
      norbs = [arr.family.norbs for arr in self.site_arrays] + [0]
      orb_offsets = np.cumsum(
          [0] + [len(arr) * arr.family.norbs for arr in self.site_arrays]
      )
      return np.array([site_offsets, norbs, orb_offsets]).transpose()
  \<close>
  The lengths, the \<^verbatim>\<open>norbs\<close> and the products \<^verbatim>\<open>len(arr) * arr.family.norbs\<close> are Python
  integers, without bound.  When all of them fit in 64 bits the three sequences become
  arrays of 64-bit integers, \<^verbatim>\<open>np.cumsum\<close> adds with wrap-around, and the result is an
  array of 64-bit integers: \<open>Int64Rows\<close>, with the rows as signed integers.  When one of
  them does not fit, numpy makes an array of floating-point numbers or of Python
  objects instead; the model says so with \<open>OtherDtype\<close> and does not follow the
  entries.  The conversion to an array of integers needs every \<^verbatim>\<open>norbs\<close> to be an
  integer.
\<close>

datatype ranges_array = Int64Rows "(int \<times> int \<times> int) list" | OtherDtype

definition site_ranges :: "site_array list \<Rightarrow> error + ranges_array" where
  "site_ranges site_arrays =
     (let lens = 0 # map (\<lambda>arr. int (len_sa arr)) site_arrays;
          norbs = map (\<lambda>arr. fam_norbs (sa_family arr)) site_arrays @ [Some 0]
      in case orbital_counts site_arrays of
           Inl e \<Rightarrow> Inl e
         | Inr counts \<Rightarrow>
             (case those norbs of
                None \<Rightarrow> Inl (TypeError ''int() argument must be a number, not NoneType'')
              | Some ns \<Rightarrow>
                  if list_all fits_int64 (lens @ map int ns @ 0 # map int counts)
                  then Inr (Int64Rows
                         (transpose3 (cumsum lens) (map int ns) (cumsum (0 # map int counts))))
                  else Inr OtherDtype))"

text \<open>A site array of one site whose family has \<open>2\<^sup>6\<^sup>2\<close> orbitals.\<close>

definition example_wide_array :: site_array where
  "example_wide_array =
     \<lparr>sa_family = \<lparr>fam_name = ''wide'', fam_norbs = Some (2 ^ 62)\<rparr>, sa_tags = [[0]]\<rparr>"

section \<open>\<^verbatim>\<open>_normalize_matrix_blocks\<close>\<close>

text \<open>
  A numpy array of complex numbers: its shape and its entries in row-major order.  A
  scalar has shape \<open>[]\<close> and one entry.
\<close>

record ndarray =
  nd_shape :: "nat list"
  nd_data :: "complex list"

definition wf_ndarray :: "ndarray \<Rightarrow> bool" where
  "wf_ndarray a = (length (nd_data a) = prod_list (nd_shape a))"












section \<open>\<^verbatim>\<open>Symmetry.to_fd\<close> and \<^verbatim>\<open>Symmetry.in_fd\<close>\<close>

text \<open>
  A site is a family and a tag.  The argument of \<^verbatim>\<open>in_fd\<close> is tested with
  \<^verbatim>\<open>isinstance\<close>: it is a \<^verbatim>\<open>Site\<close>, a \<^verbatim>\<open>SiteArray\<close> or something else.
\<close>

record site =
  site_fam :: site_family
  site_tag :: "int list"

datatype site_arg = ASite site | ASiteArray site_array | AOther pyval

text \<open>
  The abstract methods of \<^verbatim>\<open>Symmetry\<close> that \<^verbatim>\<open>to_fd\<close> and \<^verbatim>\<open>in_fd\<close> call, as a
  subclass supplies them: \<^verbatim>\<open>which\<close> gives one group element (a tuple of integers) for a
  site and one row per site for a site array; \<^verbatim>\<open>act\<close> applies an element to a site, or one
  element per row to a site array.  Both may raise.
\<close>

record symmetry =
  num_directions :: nat
  which_site :: "site \<Rightarrow> error + int list"
  which_array :: "site_array \<Rightarrow> error + int list list"
  act_site :: "int list \<Rightarrow> site \<Rightarrow> error + site"
  act_array :: "int list list \<Rightarrow> site_array \<Rightarrow> error + site_array"

datatype in_fd_result = InFdBool bool | InFdArray "bool list"

text \<open>
  \<^verbatim>\<open>
  for d in self.which(site):
      if d != 0:
          return False
  return True
  \<close>
\<close>

fun in_fd_scan :: "int list \<Rightarrow> bool" where
  "in_fd_scan [] = True"
| "in_fd_scan (d # ds) = (if d \<noteq> 0 then False else in_fd_scan ds)"

text \<open>\<^verbatim>\<open>np.logical_and.reduce\<close> along one row: the conjunction, starting from true.\<close>

definition logical_and_reduce :: "bool list \<Rightarrow> bool" where
  "logical_and_reduce bs = foldl (\<and>) True bs"

text \<open>
  \<^verbatim>\<open>
  def in_fd(self, site):
      if isinstance(site, Site):
          for d in self.which(site):
              if d != 0:
                  return False
          return True
      elif isinstance(site, SiteArray):
          which = self.which(site)
          return np.logical_and.reduce(which != 0, axis=1)
      else:
          raise TypeError("'site' must be a Site or SiteArray")
  \<close>
\<close>

definition in_fd :: "symmetry \<Rightarrow> site_arg \<Rightarrow> error + in_fd_result" where
  "in_fd self x =
     (case x of
        ASite s \<Rightarrow>
          (case which_site self s of
             Inl e \<Rightarrow> Inl e
           | Inr w \<Rightarrow> Inr (InFdBool (in_fd_scan w)))
      | ASiteArray a \<Rightarrow>
          (case which_array self a of
             Inl e \<Rightarrow> Inl e
           | Inr w \<Rightarrow>
               Inr (InFdArray (map (\<lambda>row. logical_and_reduce (map (\<lambda>d. d \<noteq> 0) row)) w)))
      | AOther v \<Rightarrow>
          Inl (TypeError (sq @ ''site'' @ sq @ '' must be a Site or SiteArray'')))"

text \<open>
  \<^verbatim>\<open>
  def to_fd(self, a, b=None):
      return self.act(-self.which(a), a, b)
  \<close>
  for a single argument \<^verbatim>\<open>a\<close>; the minus negates every coordinate.
\<close>

definition to_fd :: "symmetry \<Rightarrow> site_arg \<Rightarrow> error + site_arg" where
  "to_fd self a =
     (case a of
        ASite s \<Rightarrow>
          (case which_site self s of
             Inl e \<Rightarrow> Inl e
           | Inr w \<Rightarrow> map_sum id ASite (act_site self (map uminus w) s))
      | ASiteArray arr \<Rightarrow>
          (case which_array self arr of
             Inl e \<Rightarrow> Inl e
           | Inr w \<Rightarrow> map_sum id ASiteArray (act_array self (map (map uminus) w) arr))
      | AOther v \<Rightarrow> Inl (TypeError ''unsupported site''))"

text \<open>
  A concrete symmetry to run \<^verbatim>\<open>in_fd\<close> on: the translations by multiples of \<open>period\<close>
  along a chain whose sites have one integer as tag.  The fundamental domain is the
  sites \<open>0, \<dots>, period - 1\<close>; \<^verbatim>\<open>which\<close> is the number of periods a site is away from
  it, and \<^verbatim>\<open>act\<close> shifts a site by that many periods.
\<close>

definition chain_which :: "int \<Rightarrow> int list \<Rightarrow> error + int list" where
  "chain_which period tag =
     (case tag of
        [x] \<Rightarrow> Inr [x div period]
      | _ \<Rightarrow> Inl (ValueError ''tag is not a chain site''))"

definition chain_act :: "int \<Rightarrow> int list \<Rightarrow> int list \<Rightarrow> error + int list" where
  "chain_act period element tag =
     (case (element, tag) of
        ([k], [x]) \<Rightarrow> Inr [x + k * period]
      | _ \<Rightarrow> Inl (ValueError ''element or tag does not fit a chain''))"

fun sequence_sum :: "(error + 'a) list \<Rightarrow> error + 'a list" where
  "sequence_sum [] = Inr []"
| "sequence_sum (Inl e # rs) = Inl e"
| "sequence_sum (Inr v # rs) =
     (case sequence_sum rs of Inl e \<Rightarrow> Inl e | Inr vs \<Rightarrow> Inr (v # vs))"

definition chain_symmetry :: "int \<Rightarrow> symmetry" where
  "chain_symmetry period =
     \<lparr>num_directions = 1,
      which_site = (\<lambda>s. chain_which period (site_tag s)),
      which_array = (\<lambda>a. sequence_sum (map (chain_which period) (sa_tags a))),
      act_site = (\<lambda>g s.
        map_sum id (\<lambda>t. s\<lparr>site_tag := t\<rparr>) (chain_act period g (site_tag s))),
      act_array = (\<lambda>gs a.
        if length gs \<noteq> length (sa_tags a) then Inl (ValueError ''shape mismatch'')
        else map_sum id (\<lambda>ts. a\<lparr>sa_tags := ts\<rparr>)
               (sequence_sum (map (\<lambda>(g, t). chain_act period g t) (zip gs (sa_tags a)))))\<rparr>"

definition chain_family :: site_family where
  "chain_family = \<lparr>fam_name = ''chain'', fam_norbs = Some 1\<rparr>"

section \<open>\<^verbatim>\<open>InfiniteSystemMixin.modes\<close>\<close>

text \<open>
  The discrete-symmetry descriptor that \<^verbatim>\<open>discrete_symmetry\<close> returns is an object with
  attributes and a \<^verbatim>\<open>validate\<close> method.  Its attributes are a map from names to
  values, a value being \<^verbatim>\<open>None\<close> or a matrix; \<^verbatim>\<open>setattr\<close> binds a name, whatever the
  name is.  \<^verbatim>\<open>validate\<close> gives the names of the symmetries that a matrix breaks.
\<close>

record dsym =
  ds_attrs :: "string \<rightharpoonup> ndarray option"
  ds_validate :: "ndarray \<Rightarrow> string list"

definition setattr_none :: "dsym \<Rightarrow> string \<Rightarrow> dsym" where
  "setattr_none symmetries name = symmetries\<lparr>ds_attrs := (ds_attrs symmetries)(name \<mapsto> None)\<rparr>"

text \<open>
  \<^verbatim>\<open>
  attribute_names = {'Conservation law': 'projectors',
                    'Time reversal': 'time_reversal',
                    'Particle-hole': 'particle-hole',
                    'Chiral': 'chiral'}
  \<close>
\<close>

definition attribute_names :: "(string \<times> string) list" where
  "attribute_names =
     [(''Conservation law'', ''projectors''),
      (''Time reversal'', ''time_reversal''),
      (''Particle-hole'', ''particle-hole''),
      (''Chiral'', ''chiral'')]"

text \<open>
  \<^verbatim>\<open>
  for name in broken:
      warnings.warn('Hamiltonian breaks ' + name +
                    ', ignoring the symmetry in the computation.')
      assert name in attribute_names, 'Inconsistent naming of symmetries'
      setattr(symmetries, attribute_names[name], None)
  \<close>
  The warnings emitted so far are threaded through as a list.
\<close>

fun ignore_broken :: "string list \<Rightarrow> string list \<Rightarrow> dsym \<Rightarrow> string list \<times> (error + dsym)" where
  "ignore_broken [] warned symmetries = (warned, Inr symmetries)"
| "ignore_broken (name # names) warned symmetries =
     (let warned' = warned @
            [''Hamiltonian breaks '' @ name @ '', ignoring the symmetry in the computation.'']
      in case map_of attribute_names name of
           None \<Rightarrow> (warned', Inl (AssertionError ''Inconsistent naming of symmetries''))
         | Some attr \<Rightarrow> ignore_broken names warned' (setattr_none symmetries attr))"

text \<open>
  \<^verbatim>\<open>ham.flat[::ham.shape[0] + 1] -= energy\<close>: every entry of the flattened array whose
  index is a multiple of the number of rows plus one.
\<close>

definition subtract_diagonal :: "complex \<Rightarrow> ndarray \<Rightarrow> ndarray" where
  "subtract_diagonal energy ham =
     ham\<lparr>nd_data :=
       map (\<lambda>(i, x). if i mod (hd (nd_shape ham) + 1) = 0 then x - energy else x)
         (zip [0..<length (nd_data ham)] (nd_data ham))\<rparr>"

text \<open>
  The methods of the system that \<^verbatim>\<open>modes\<close> calls on \<^verbatim>\<open>self\<close>, each taking \<^verbatim>\<open>args\<close>
  and \<^verbatim>\<open>params\<close>.
\<close>

record ('a, 'p) infinite_mixin =
  cell_hamiltonian_of :: "'a \<Rightarrow> 'p \<Rightarrow> error + ndarray"
  inter_cell_hopping_of :: "'a \<Rightarrow> 'p \<Rightarrow> error + ndarray"
  discrete_symmetry_of :: "'a \<Rightarrow> 'p \<Rightarrow> error + dsym"

text \<open>
  \<^verbatim>\<open>
  ham = self.cell_hamiltonian(args, params=params)
  hop = self.inter_cell_hopping(args, params=params)
  symmetries = self.discrete_symmetry(args, params=params)
  broken = set(symmetries.validate(ham) + symmetries.validate(hop))
  attribute_names = {...}
  for name in broken: ...
  shape = ham.shape
  assert len(shape) == 2
  assert shape[0] == shape[1]
  ham.flat[::ham.shape[0] + 1] -= energy
  if energy:
      symmetries.particle_hole = symmetries.chiral = None
  return physics.modes(ham, hop, discrete_symmetry=symmetries)
  \<close>
  \<open>modes_arguments\<close> is everything up to the last line: the warnings emitted, and the
  three arguments handed to \<^verbatim>\<open>physics.modes\<close> unless an exception came first.  The set
  \<^verbatim>\<open>broken\<close> is walked in the order of first occurrence.
\<close>

definition modes_arguments ::
  "('a, 'p) infinite_mixin \<Rightarrow> complex \<Rightarrow> 'a \<Rightarrow> 'p \<Rightarrow>
     string list \<times> (error + ndarray \<times> ndarray \<times> dsym)" where
  "modes_arguments self energy args params =
     (case cell_hamiltonian_of self args params of
        Inl e \<Rightarrow> ([], Inl e)
      | Inr ham \<Rightarrow>
     (case inter_cell_hopping_of self args params of
        Inl e \<Rightarrow> ([], Inl e)
      | Inr hop \<Rightarrow>
     (case discrete_symmetry_of self args params of
        Inl e \<Rightarrow> ([], Inl e)
      | Inr symmetries \<Rightarrow>
     (let broken = remdups (ds_validate symmetries ham @ ds_validate symmetries hop)
      in case ignore_broken broken [] symmetries of
           (warned, Inl e) \<Rightarrow> (warned, Inl e)
         | (warned, Inr symmetries') \<Rightarrow>
             if length (nd_shape ham) \<noteq> 2 then (warned, Inl (AssertionError []))
             else if nd_shape ham ! 0 \<noteq> nd_shape ham ! 1 then (warned, Inl (AssertionError []))
             else
               let ham' = subtract_diagonal energy ham;
                   symmetries'' =
                     (if energy \<noteq> 0
                      then setattr_none (setattr_none symmetries' ''chiral'') ''particle_hole''
                      else symmetries')
               in (warned, Inr (ham', hop, symmetries''))))))"

definition modes ::
  "(ndarray \<Rightarrow> ndarray \<Rightarrow> dsym \<Rightarrow> error + 'r) \<Rightarrow>
   ('a, 'p) infinite_mixin \<Rightarrow> complex \<Rightarrow> 'a \<Rightarrow> 'p \<Rightarrow> string list \<times> (error + 'r)" where
  "modes physics_modes self energy args params =
     (case modes_arguments self energy args params of
        (warned, Inl e) \<Rightarrow> (warned, Inl e)
      | (warned, Inr (ham, hop, symmetries)) \<Rightarrow> (warned, physics_modes ham hop symmetries))"

text \<open>
  A lead to run \<^verbatim>\<open>modes\<close> on: a cell of two orbitals, a descriptor that declares a
  particle-hole and a chiral operator, and a validator that reports the given names as
  broken by the cell Hamiltonian.
\<close>

definition example_ham :: ndarray where
  "example_ham = \<lparr>nd_shape = [2, 2], nd_data = [1, 2, 2, 1]\<rparr>"

definition example_hop :: ndarray where
  "example_hop = \<lparr>nd_shape = [2, 2], nd_data = [0, 1, 0, 0]\<rparr>"

definition example_operator :: ndarray where
  "example_operator = \<lparr>nd_shape = [2, 2], nd_data = [0, 1, 1, 0]\<rparr>"

definition example_symmetries :: "string list \<Rightarrow> dsym" where
  "example_symmetries broken =
     \<lparr>ds_attrs = [''projectors'' \<mapsto> None, ''time_reversal'' \<mapsto> None,
                  ''particle_hole'' \<mapsto> Some example_operator, ''chiral'' \<mapsto> Some example_operator],
      ds_validate = (\<lambda>m. if m = example_ham then broken else [])\<rparr>"

definition example_lead :: "string list \<Rightarrow> (unit, unit) infinite_mixin" where
  "example_lead broken =
     \<lparr>cell_hamiltonian_of = (\<lambda>a p. Inr example_ham),
      inter_cell_hopping_of = (\<lambda>a p. Inr example_hop),
      discrete_symmetry_of = (\<lambda>a p. Inr (example_symmetries broken))\<rparr>"

section \<open>\<^verbatim>\<open>FiniteSystemMixin.precalculate\<close>\<close>

subsection \<open>Objects and references\<close>

text \<open>
  \<^verbatim>\<open>precalculate\<close> copies the system object and builds a new list of leads, and what
  it shares with the original matters.  Objects therefore live in a store: a list of
  objects, an object's address being its position.  Allocation appends, so a new
  address is the length of the store and is never an address of the store before.
  An instance is its attribute dictionary, from names to addresses; a list object holds
  addresses; a lead is either an object with its own \<^verbatim>\<open>modes\<close> and \<^verbatim>\<open>selfenergy\<close>
  methods or a \<^verbatim>\<open>PrecalculatedLead\<close>; everything else (graph, terms, site data) is opaque.
\<close>

type_synonym addr = nat

type_synonym call_args = "pyval list"

type_synonym call_params = "(string \<times> pyval) list option"

text \<open>
  What a lead's \<^verbatim>\<open>modes\<close> returns is \<^verbatim>\<open>None\<close> or a tuple of mode objects; it is
  documented to be the pair of the propagating and the stabilized modes.  A mode
  object is known here by a label and by its \<^verbatim>\<open>selfenergy\<close> attribute: \<open>None\<close> when the
  object has no such attribute, and otherwise what calling it does.  A self-energy is
  \<^verbatim>\<open>None\<close> or a matrix.
\<close>

datatype mode_part =
  ModePart (part_label: string) (part_selfenergy: "(error + ndarray option) option")

type_synonym modes_value = "mode_part list option"

fun truthy_modes :: "modes_value \<Rightarrow> bool" where
  "truthy_modes None = False"
| "truthy_modes (Some parts) = (parts \<noteq> [])"

text \<open>
  A lead may provide \<^verbatim>\<open>modes\<close> and may provide \<^verbatim>\<open>selfenergy\<close>: each attribute is \<open>None\<close>
  when the object does not have it.  Both methods take the energy, args and params, and
  may raise.
\<close>

record lead =
  lead_modes :: "(complex \<Rightarrow> call_args \<Rightarrow> call_params \<Rightarrow> error + modes_value) option"
  lead_selfenergy ::
    "(complex \<Rightarrow> call_args \<Rightarrow> call_params \<Rightarrow> error + ndarray option) option"

datatype obj =
    Instance "string \<rightharpoonup> addr"
  | ListObj "addr list"
  | LeadObj lead
  | PrecalculatedObj "(mode_part list, ndarray) precalculated_lead"
  | Opaque string

type_synonym store = "obj list"

definition lookup :: "store \<Rightarrow> addr \<Rightarrow> obj option" where
  "lookup heap a = (if a < length heap then Some (heap ! a) else None)"

text \<open>Resolving the entries of a list object, each kept with its address.\<close>

fun resolve :: "store \<Rightarrow> addr list \<Rightarrow> (addr \<times> obj) list option" where
  "resolve heap [] = Some []"
| "resolve heap (a # as) =
     (case lookup heap a of
        None \<Rightarrow> None
      | Some ob \<Rightarrow>
          (case resolve heap as of
             None \<Rightarrow> None
           | Some rest \<Rightarrow> Some ((a, ob) # rest)))"

subsection \<open>Calling a lead\<close>

text \<open>
  The attribute lookups \<^verbatim>\<open>lead.modes\<close> and \<^verbatim>\<open>lead.selfenergy\<close> on an object of the
  store: the bound method, or \<open>None\<close> when the lookup raises \<^verbatim>\<open>AttributeError\<close>.  A
  \<^verbatim>\<open>PrecalculatedLead\<close> has both methods.
\<close>

definition getattr_modes ::
  "obj \<Rightarrow> (complex \<Rightarrow> call_args \<Rightarrow> call_params \<Rightarrow> error + modes_value) option" where
  "getattr_modes ob =
     (case ob of
        LeadObj l \<Rightarrow> lead_modes l
      | PrecalculatedObj p \<Rightarrow>
          Some (\<lambda>energy args params. map_sum id Some (pl_modes_call p energy args params))
      | _ \<Rightarrow> None)"

definition getattr_selfenergy ::
  "obj \<Rightarrow> (complex \<Rightarrow> call_args \<Rightarrow> call_params \<Rightarrow> error + ndarray option) option" where
  "getattr_selfenergy ob =
     (case ob of
        LeadObj l \<Rightarrow> lead_selfenergy l
      | PrecalculatedObj p \<Rightarrow>
          Some (\<lambda>energy args params. map_sum id Some (pl_selfenergy_call p energy args params))
      | _ \<Rightarrow> None)"

text \<open>
  \<^verbatim>\<open>lead.modes(energy, args, params=params)\<close> and
  \<^verbatim>\<open>lead.selfenergy(energy, args, params=params)\<close> as expressions: the lookup, then the
  call.
\<close>

definition call_modes ::
  "obj \<Rightarrow> complex \<Rightarrow> call_args \<Rightarrow> call_params \<Rightarrow> error + modes_value" where
  "call_modes ob energy args params =
     (case getattr_modes ob of
        None \<Rightarrow> Inl (AttributeError ''modes'')
      | Some f \<Rightarrow> f energy args params)"

definition call_selfenergy ::
  "obj \<Rightarrow> complex \<Rightarrow> call_args \<Rightarrow> call_params \<Rightarrow> error + ndarray option" where
  "call_selfenergy ob energy args params =
     (case getattr_selfenergy ob of
        None \<Rightarrow> Inl (AttributeError ''selfenergy'')
      | Some f \<Rightarrow> f energy args params)"

text \<open>\<^verbatim>\<open>modes[1]\<close> on a tuple.\<close>

definition item1 :: "mode_part list \<Rightarrow> error + mode_part" where
  "item1 parts =
     (if 1 < length parts then Inr (parts ! 1)
      else Inl (IndexError ''tuple index out of range''))"

text \<open>
  The calls that \<^verbatim>\<open>precalculate\<close> makes are recorded, each with the number of the lead:
  the lead's \<^verbatim>\<open>modes\<close>, the lead's \<^verbatim>\<open>selfenergy\<close>, and the \<^verbatim>\<open>selfenergy()\<close> of the
  second entry of a modes result.  A call is recorded when the method is entered: an
  attribute lookup that fails raises \<^verbatim>\<open>AttributeError\<close> and calls nothing.
\<close>

datatype event = LeadModes nat | LeadSelfenergy nat | ModesSelfenergy nat

subsection \<open>One selected lead\<close>

text \<open>
  \<^verbatim>\<open>
  modes, selfenergy = None, None
  if what in ('modes', 'all'):
      modes = lead.modes(energy, args, params=params)
  if what in ('selfenergy', 'all'):
      if modes:
          selfenergy = modes[1].selfenergy()
      else:
          selfenergy = lead.selfenergy(energy, args, params=params)
  new_leads.append(PrecalculatedLead(modes, selfenergy))
  \<close>
\<close>

definition compute_modes ::
  "string \<Rightarrow> nat \<Rightarrow> obj \<Rightarrow> complex \<Rightarrow> call_args \<Rightarrow> call_params \<Rightarrow>
     event list \<times> (error + modes_value)" where
  "compute_modes what nr ob energy args params =
     (if what \<in> set [''modes'', ''all'']
      then
        (case getattr_modes ob of
           None \<Rightarrow> ([], Inl (AttributeError ''modes''))
         | Some f \<Rightarrow> ([LeadModes nr], f energy args params))
      else ([], Inr None))"

definition compute_selfenergy ::
  "string \<Rightarrow> nat \<Rightarrow> obj \<Rightarrow> modes_value \<Rightarrow> complex \<Rightarrow> call_args \<Rightarrow> call_params \<Rightarrow>
     event list \<times> (error + ndarray option)" where
  "compute_selfenergy what nr ob modes_result energy args params =
     (if what \<in> set [''selfenergy'', ''all'']
      then
        (if truthy_modes modes_result
         then
           (case item1 (case modes_result of Some parts \<Rightarrow> parts | None \<Rightarrow> []) of
              Inl e \<Rightarrow> ([], Inl e)
            | Inr part \<Rightarrow>
                (case part_selfenergy part of
                   None \<Rightarrow> ([], Inl (AttributeError ''selfenergy''))
                 | Some outcome \<Rightarrow> ([ModesSelfenergy nr], outcome)))
         else
           (case getattr_selfenergy ob of
              None \<Rightarrow> ([], Inl (AttributeError ''selfenergy''))
            | Some f \<Rightarrow> ([LeadSelfenergy nr], f energy args params)))
      else ([], Inr None))"

definition compute_lead ::
  "string \<Rightarrow> nat \<Rightarrow> obj \<Rightarrow> complex \<Rightarrow> call_args \<Rightarrow> call_params \<Rightarrow>
     event list \<times> (error + (mode_part list, ndarray) precalculated_lead)" where
  "compute_lead what nr ob energy args params =
     (case compute_modes what nr ob energy args params of
        (ev1, Inl e) \<Rightarrow> (ev1, Inl e)
      | (ev1, Inr modes_result) \<Rightarrow>
          (case compute_selfenergy what nr ob modes_result energy args params of
             (ev2, Inl e) \<Rightarrow> (ev1 @ ev2, Inl e)
           | (ev2, Inr selfenergy_result) \<Rightarrow>
               (ev1 @ ev2, PrecalculatedLead modes_result selfenergy_result)))"

subsection \<open>The loop and the method\<close>

text \<open>
  \<^verbatim>\<open>
  new_leads = []
  for nr, lead in enumerate(self.leads):
      if nr not in leads:
          new_leads.append(lead)
          continue
      ...
      new_leads.append(PrecalculatedLead(modes, selfenergy))
  \<close>
  The loop carries the store, to which each \<^verbatim>\<open>PrecalculatedLead\<close> is added, the calls
  made so far and the entries of \<^verbatim>\<open>new_leads\<close> so far.
\<close>

fun precalculate_loop ::
  "string \<Rightarrow> complex \<Rightarrow> call_args \<Rightarrow> call_params \<Rightarrow> int list \<Rightarrow>
   nat \<Rightarrow> (addr \<times> obj) list \<Rightarrow> store \<Rightarrow> event list \<Rightarrow> addr list \<Rightarrow>
     event list \<times> (error + store \<times> addr list)" where
  "precalculate_loop what energy args params leads nr [] heap trace new_leads =
     (trace, Inr (heap, new_leads))"
| "precalculate_loop what energy args params leads nr ((a, ob) # rest) heap trace new_leads =
     (if int nr \<notin> set leads
      then precalculate_loop what energy args params leads (Suc nr) rest heap trace
             (new_leads @ [a])
      else
        (case compute_lead what nr ob energy args params of
           (evs, Inl e) \<Rightarrow> (trace @ evs, Inl e)
         | (evs, Inr p) \<Rightarrow>
             precalculate_loop what energy args params leads (Suc nr) rest
               (heap @ [PrecalculatedObj p]) (trace @ evs) (new_leads @ [length heap])))"

text \<open>
  \<^verbatim>\<open>
  if leads is None:
      leads = list(range(len(self.leads)))
  \<close>
\<close>

definition selection :: "int list option \<Rightarrow> nat \<Rightarrow> int list" where
  "selection leads n = (case leads of None \<Rightarrow> map int [0..<n] | Some ls \<Rightarrow> ls)"

text \<open>
  \<^verbatim>\<open>
  if what not in ('modes', 'selfenergy', 'all'):
      raise ValueError("Invalid value of argument 'what': "
                       "{0}".format(what))
  result = copy(self)
  if leads is None:
      leads = list(range(len(self.leads)))
  new_leads = []
  for nr, lead in enumerate(self.leads): ...
  result.leads = new_leads
  return result
  \<close>
  \<^verbatim>\<open>copy(self)\<close> is a new instance with the same attribute dictionary.  The result is
  the calls made, and either an exception or the new store with the address of the
  new system.
\<close>

definition precalculate ::
  "store \<Rightarrow> addr \<Rightarrow> complex \<Rightarrow> call_args \<Rightarrow> int list option \<Rightarrow> string \<Rightarrow> call_params \<Rightarrow>
     event list \<times> (error + store \<times> addr)" where
  "precalculate heap self energy args leads what params =
     (if what \<notin> set [''modes'', ''selfenergy'', ''all'']
      then ([], Inl (ValueError
              (''Invalid value of argument '' @ sq @ ''what'' @ sq @ '': '' @ what)))
      else
        (case lookup heap self of
           Some (Instance attrs) \<Rightarrow>
             (let result = length heap;
                  heap1 = heap @ [Instance attrs]
              in case attrs ''leads'' of
                   None \<Rightarrow> ([], Inl (AttributeError ''leads''))
                 | Some la \<Rightarrow>
                     (case lookup heap la of
                        Some (ListObj self_leads) \<Rightarrow>
                          (case resolve heap self_leads of
                             None \<Rightarrow> ([], Inl (Raised ''invalid reference''))
                           | Some entries \<Rightarrow>
                               (let leads' = selection leads (length self_leads)
                                in case precalculate_loop what energy args params leads' 0
                                          entries heap1 [] [] of
                                     (trace, Inl e) \<Rightarrow> (trace, Inl e)
                                   | (trace, Inr (heap2, new_leads)) \<Rightarrow>
                                       (trace,
                                        Inr ((heap2 @ [ListObj new_leads])
                                               [result := Instance
                                                  (attrs(''leads'' \<mapsto> length heap2))],
                                             result))))
                      | _ \<Rightarrow> ([], Inl (TypeError ''leads is not a sequence''))))
         | _ \<Rightarrow> ([], Inl (TypeError ''self is not a system''))))"

text \<open>
  A system to run \<^verbatim>\<open>precalculate\<close> on: a graph, a list of two leads, and the system
  object itself at address 4.  The first lead has modes whose second entry gives a
  self-energy (the first entry has no \<^verbatim>\<open>selfenergy\<close>); the second lead has no \<^verbatim>\<open>modes\<close>.
\<close>

definition example_sigma :: ndarray where
  "example_sigma = \<lparr>nd_shape = [1, 1], nd_data = [2]\<rparr>"

definition example_mode_lead :: lead where
  "example_mode_lead =
     \<lparr>lead_modes = Some (\<lambda>energy args params.
        Inr (Some [ModePart ''propagating'' None,
                   ModePart ''stabilized'' (Some (Inr (Some example_sigma)))])),
      lead_selfenergy = Some (\<lambda>energy args params. Inr (Some example_sigma))\<rparr>"

definition example_selfenergy_lead :: lead where
  "example_selfenergy_lead =
     \<lparr>lead_modes = None,
      lead_selfenergy = Some (\<lambda>energy args params. Inr (Some example_sigma))\<rparr>"

definition example_store :: store where
  "example_store =
     [Opaque ''graph'',
      LeadObj example_mode_lead,
      LeadObj example_selfenergy_lead,
      ListObj [1, 2],
      Instance [''graph'' \<mapsto> 0, ''leads'' \<mapsto> 3]]"

text \<open>
  A second system, at address 3, with one lead whose \<^verbatim>\<open>modes\<close> returns the empty tuple.
\<close>

definition example_empty_modes_lead :: lead where
  "example_empty_modes_lead =
     \<lparr>lead_modes = Some (\<lambda>energy args params. Inr (Some [])),
      lead_selfenergy = Some (\<lambda>energy args params. Inr (Some example_sigma))\<rparr>"

definition example_empty_store :: store where
  "example_empty_store =
     [Opaque ''graph'',
      LeadObj example_empty_modes_lead,
      ListObj [1],
      Instance [''graph'' \<mapsto> 0, ''leads'' \<mapsto> 2]]"

section \<open>\<^verbatim>\<open>InfiniteSystem.cell_hamiltonian\<close> and \<^verbatim>\<open>inter_cell_hopping\<close>\<close>

text \<open>
  What the two methods read of an infinite system: \<^verbatim>\<open>graph.num_nodes\<close>, \<^verbatim>\<open>cell_size\<close>,
  the number of orbitals that \<^verbatim>\<open>site_ranges\<close> declares for a site, and the abstract
  method \<^verbatim>\<open>hamiltonian(i, j, *args, params)\<close>, which gives the on-site or hopping block
  of two sites or raises.  Sites and sizes are Python integers.
\<close>

record infinite_system =
  graph_num_nodes :: int
  cell_size :: int
  orbitals :: "int \<Rightarrow> nat"
  hamiltonian :: "int \<Rightarrow> int \<Rightarrow> call_args \<Rightarrow> call_params \<Rightarrow> error + ndarray"

text \<open>A matrix as \<^verbatim>\<open>hamiltonian_submatrix\<close> returns it: sparse or dense, and its entries.\<close>

datatype matrix = Matrix (mat_sparse: bool) (mat_array: ndarray)

definition total_orbitals :: "infinite_system \<Rightarrow> int list \<Rightarrow> nat" where
  "total_orbitals self sites = sum_list (map (orbitals self) sites)"

text \<open>Row \<open>r\<close> of a two-dimensional array.\<close>

definition block_row :: "ndarray \<Rightarrow> nat \<Rightarrow> complex list" where
  "block_row h r = take (nd_shape h ! 1) (drop (r * (nd_shape h ! 1)) (nd_data h))"

text \<open>
  Modelled from the spec: \<^verbatim>\<open>hamiltonian_submatrix\<close> is
  \<^verbatim>\<open>_system.hamiltonian_submatrix\<close>, a function of a module that is not among the sources.
  The specification gives it as
  \<^verbatim>\<open>hamiltonian_submatrix(args, rows=None, cols=None, sparse=False, params=None) -> matrix\<close>,
  which ``assembles a (sparse or dense) block matrix over an arbitrary subset of
  rows/columns by invoking per-pair or per-term evaluation and packing results according
  to \<^verbatim>\<open>site_ranges\<close> offsets'', where the shape of a block ``must match
  \<^verbatim>\<open>site_ranges\<close>-declared orbital counts for sites \<open>i\<close>, \<open>j\<close> or the system is
  inconsistent''.

  So: the block of a pair of sites is what \<^verbatim>\<open>hamiltonian\<close> returns, and it is an error
  when its shape is not the orbitals of the two sites; the blocks of one row site, side
  by side, form a band of as many matrix rows as the site has orbitals; the bands, one
  below the other, form the matrix.  \<^verbatim>\<open>None\<close> for the rows or the columns stands for
  all sites.
\<close>

definition site_block ::
  "infinite_system \<Rightarrow> call_args \<Rightarrow> call_params \<Rightarrow> int \<Rightarrow> int \<Rightarrow> error + ndarray" where
  "site_block self args params i j =
     (case hamiltonian self i j args params of
        Inl e \<Rightarrow> Inl e
      | Inr h \<Rightarrow>
          if nd_shape h = [orbitals self i, orbitals self j] \<and> wf_ndarray h then Inr h
          else Inl (ValueError ''matrix block does not match the orbitals of its sites''))"

definition site_band ::
  "infinite_system \<Rightarrow> call_args \<Rightarrow> call_params \<Rightarrow> int list \<Rightarrow> int \<Rightarrow>
     error + complex list" where
  "site_band self args params from_sites i =
     (case sequence_sum (map (site_block self args params i) from_sites) of
        Inl e \<Rightarrow> Inl e
      | Inr blocks \<Rightarrow>
          Inr (concat (map (\<lambda>r. concat (map (\<lambda>h. block_row h r) blocks))
                         [0..<orbitals self i])))"

definition hamiltonian_submatrix ::
  "infinite_system \<Rightarrow> call_args \<Rightarrow> int list option \<Rightarrow> int list option \<Rightarrow> bool \<Rightarrow>
   call_params \<Rightarrow> error + matrix" where
  "hamiltonian_submatrix self args to_sites from_sites sparse params =
     (let all_sites = [0..graph_num_nodes self - 1];
          rows = (case to_sites of None \<Rightarrow> all_sites | Some sites \<Rightarrow> sites);
          cols = (case from_sites of None \<Rightarrow> all_sites | Some sites \<Rightarrow> sites)
      in case sequence_sum (map (site_band self args params cols) rows) of
           Inl e \<Rightarrow> Inl e
         | Inr bands \<Rightarrow>
             Inr (Matrix sparse
                    \<lparr>nd_shape = [total_orbitals self rows, total_orbitals self cols],
                     nd_data = concat bands\<rparr>))"

text \<open>
  \<^verbatim>\<open>
  def cell_hamiltonian(self, args=(), sparse=False, *, params=None):
      cell_sites = range(self.cell_size)
      return self.hamiltonian_submatrix(args, cell_sites, cell_sites,
                                        sparse=sparse, params=params)
  \<close>
  \<^verbatim>\<open>range(n)\<close> is the integers from \<open>0\<close> to \<open>n - 1\<close>, none when \<open>n \<le> 0\<close>.
\<close>

definition cell_hamiltonian ::
  "infinite_system \<Rightarrow> call_args \<Rightarrow> bool \<Rightarrow> call_params \<Rightarrow> error + matrix" where
  "cell_hamiltonian self args sparse params =
     (let cell_sites = [0..cell_size self - 1]
      in hamiltonian_submatrix self args (Some cell_sites) (Some cell_sites) sparse params)"

text \<open>
  \<^verbatim>\<open>
  def inter_cell_hopping(self, args=(), sparse=False, *, params=None):
      cell_sites = range(self.cell_size)
      interface_sites = range(self.cell_size, self.graph.num_nodes)
      return self.hamiltonian_submatrix(args, cell_sites, interface_sites,
                                        sparse=sparse, params=params)
  \<close>
\<close>

definition inter_cell_hopping ::
  "infinite_system \<Rightarrow> call_args \<Rightarrow> bool \<Rightarrow> call_params \<Rightarrow> error + matrix" where
  "inter_cell_hopping self args sparse params =
     (let cell_sites = [0..cell_size self - 1];
          interface_sites = [cell_size self..graph_num_nodes self - 1]
      in hamiltonian_submatrix self args (Some cell_sites) (Some interface_sites) sparse params)"

text \<open>
  An infinite system to run the two methods on: a cell of two sites, of one and two
  orbitals, and one interface site of one orbital.  Every entry of the block of the
  sites \<open>i\<close> and \<open>j\<close> is \<open>10 i + j\<close>.
\<close>

definition example_orbitals :: "int \<Rightarrow> nat" where
  "example_orbitals i = (if i = 1 then 2 else 1)"

definition example_chain :: infinite_system where
  "example_chain =
     \<lparr>graph_num_nodes = 3,
      cell_size = 2,
      orbitals = example_orbitals,
      hamiltonian = (\<lambda>i j args params.
        if 0 \<le> i \<and> i < 3 \<and> 0 \<le> j \<and> j < 3
        then Inr \<lparr>nd_shape = [example_orbitals i, example_orbitals j],
                  nd_data = replicate (example_orbitals i * example_orbitals j)
                              (of_int (10 * i + j))\<rparr>
        else Inl (IndexError ''site out of range''))\<rparr>"

section \<open>Properties of \<^verbatim>\<open>NoSymmetry.subgroup\<close>\<close>

lemma any_py_False_call:
  "\<not> any_py generators \<Longrightarrow>
     subgroup self generators = Inl (TypeError ''NoSymmetry() takes no arguments'')"
  by (simp add: subgroup_def NoSymmetry_new_def)

text \<open>
  Claim C10.  \<^verbatim>\<open>NoSymmetry()\<close> itself can be built, and on it every call
  \<^verbatim>\<open>subgroup(*generators)\<close> ends in an exception: the \<^verbatim>\<open>ValueError\<close> about non-empty
  generators if one of them is truthy, and otherwise a \<^verbatim>\<open>TypeError\<close>, because the
  tuple of generators is passed to a constructor that takes no argument.  No call
  returns a symmetry.
\<close>

theorem subgroup_always_raises:
  "NoSymmetry_new [] = Inr NoSymmetry \<and>
   subgroup self generators =
     (if any_py generators
      then Inl (ValueError ''Generators must be empty for NoSymmetry.'')
      else Inl (TypeError ''NoSymmetry() takes no arguments'')) \<and>
   (\<forall>r. subgroup self generators \<noteq> Inr r)"
  by (simp add: subgroup_def NoSymmetry_new_def)

section \<open>Properties of \<^verbatim>\<open>InfiniteVectorizedSystem.hamiltonian_submatrix\<close>\<close>

lemma ivs_body_raises:
  "ivs_hamiltonian_submatrix args sparse return_norb params \<noteq> Inr m"
  by (simp add: ivs_hamiltonian_submatrix_def)

text \<open>
  Claim C9.  Whatever the arguments, the body of \<^verbatim>\<open>hamiltonian_submatrix\<close> of an
  infinite vectorized system raises the \<^verbatim>\<open>ValueError\<close> with the fixed message, and a
  call with any positional and keyword arguments raises (that error, or the
  \<^verbatim>\<open>TypeError\<close> of a call that does not fit the signature): no call returns a matrix.
\<close>

theorem ivs_hamiltonian_submatrix_never_returns:
  "ivs_hamiltonian_submatrix args sparse return_norb params =
     Inl (ValueError ivs_submatrix_message) \<and>
   isl (ivs_call pos kws :: error + 'm) \<and>
   (\<forall>m :: 'm. ivs_call pos kws \<noteq> Inr m)"
  by (simp add: ivs_call_def ivs_hamiltonian_submatrix_def)

section \<open>Properties of \<^verbatim>\<open>PrecalculatedLead\<close>\<close>

lemma no_modes_message_names:
  "contains no_modes_message (''what='' @ sq @ ''modes'' @ sq) \<and>
   contains no_modes_message (''what='' @ sq @ ''all'' @ sq)"
  by (simp add: no_modes_message_def)

lemma no_selfenergy_message_names:
  "contains no_selfenergy_message (''what='' @ sq @ ''selfenergy'' @ sq) \<and>
   contains no_selfenergy_message (''what='' @ sq @ ''all'' @ sq)"
  by (simp add: no_selfenergy_message_def)

text \<open>
  Claim C6.  Constructing a \<^verbatim>\<open>PrecalculatedLead\<close> without modes and without
  self-energy raises the construction error.  Built from modes only, its \<^verbatim>\<open>modes\<close>
  accessor returns the stored value for any energy, args and params, and its
  \<^verbatim>\<open>selfenergy\<close> accessor raises an error whose message names \<^verbatim>\<open>what='selfenergy'\<close>
  and \<^verbatim>\<open>what='all'\<close>; built from a self-energy only, the roles are exchanged and the
  message names \<^verbatim>\<open>what='modes'\<close> and \<^verbatim>\<open>what='all'\<close>.  Every lead that the constructor
  returns stores its two arguments and has the empty set as \<^verbatim>\<open>parameters\<close>.
\<close>

theorem precalculated_lead_accessors:
  fixes m :: 'm and s :: 's and energy :: 'e and args :: 'a and params :: 'p
  shows
  "PrecalculatedLead (None :: 'm option) (None :: 's option) =
     Inl (ValueError ''No precalculated values provided.'') \<and>
   (case PrecalculatedLead (Some m) (None :: 's option) of
      Inl e \<Rightarrow> False
    | Inr lead \<Rightarrow>
        pl_modes_call lead energy args params = Inr m \<and>
        pl_selfenergy_call lead energy args params = Inl (ValueError no_selfenergy_message) \<and>
        pl_parameters lead = {}) \<and>
   (case PrecalculatedLead (None :: 'm option) (Some s) of
      Inl e \<Rightarrow> False
    | Inr lead \<Rightarrow>
        pl_selfenergy_call lead energy args params = Inr s \<and>
        pl_modes_call lead energy args params = Inl (ValueError no_modes_message) \<and>
        pl_parameters lead = {}) \<and>
   contains no_selfenergy_message (''what='' @ sq @ ''selfenergy'' @ sq) \<and>
   contains no_selfenergy_message (''what='' @ sq @ ''all'' @ sq) \<and>
   contains no_modes_message (''what='' @ sq @ ''modes'' @ sq) \<and>
   contains no_modes_message (''what='' @ sq @ ''all'' @ sq) \<and>
   (case PrecalculatedLead mo so of
      Inl e \<Rightarrow> mo = None \<and> so = None
    | Inr lead \<Rightarrow>
        pl_modes lead = mo \<and> pl_selfenergy lead = so \<and> pl_parameters lead = {})"
  using no_modes_message_names no_selfenergy_message_names
  by (simp add: PrecalculatedLead_def pl_modes_call_def pl_selfenergy_call_def)

section \<open>Properties of \<^verbatim>\<open>site_ranges\<close>\<close>

lemma wrap_int64_id: "fits_int64 n \<Longrightarrow> wrap_int64 n = n"
  by (simp add: fits_int64_def wrap_int64_def)

lemma length_cumsum_from: "length (cumsum_from acc xs) = length xs"
  by (induction xs arbitrary: acc) simp_all

lemma sum_list_nonneg_int: "list_all (\<lambda>x. (0 :: int) \<le> x) xs \<Longrightarrow> 0 \<le> sum_list xs"
  by (induction xs) simp_all

lemma nth_cumsum_from:
  "0 \<le> acc \<Longrightarrow> list_all (\<lambda>x. 0 \<le> x) xs \<Longrightarrow> acc + sum_list xs < 2 ^ 63 \<Longrightarrow>
   k < length xs \<Longrightarrow> cumsum_from acc xs ! k = acc + sum_list (take (Suc k) xs)"
proof (induction xs arbitrary: acc k)
  case Nil
  then show ?case by simp
next
  case (Cons x xs)
  from Cons.prems(2) have x: "0 \<le> x" and rest: "list_all (\<lambda>x. 0 \<le> x) xs" by simp_all
  from sum_list_nonneg_int [OF rest] have nonneg: "0 \<le> sum_list xs" .
  from Cons.prems(1) x have lo: "0 \<le> acc + x" by simp
  from Cons.prems(3) nonneg have hi: "acc + x < 2 ^ 63" by simp
  from lo hi have "fits_int64 (acc + x)" by (simp add: fits_int64_def)
  then have w: "wrap_int64 (acc + x) = acc + x" by (rule wrap_int64_id)
  show ?case
  proof (cases k)
    case 0
    then show ?thesis by (simp add: w)
  next
    case (Suc j)
    with Cons.prems have j: "j < length xs" by simp
    from Cons.prems(3) have bound: "(acc + x) + sum_list xs < 2 ^ 63" by simp
    from Cons.IH [OF lo rest bound j] Suc show ?thesis by (simp add: w)
  qed
qed

lemma length_cumsum0: "length (cumsum (0 # xs)) = Suc (length xs)"
  by (simp add: cumsum_def length_cumsum_from)

lemma nth_cumsum0:
  assumes "list_all (\<lambda>x. 0 \<le> x) xs" and "sum_list xs < 2 ^ 63" and "k \<le> length xs"
  shows "cumsum (0 # xs) ! k = sum_list (take k xs)"
proof -
  from assms have "cumsum_from 0 (0 # xs) ! k = 0 + sum_list (take (Suc k) (0 # xs))"
    by (intro nth_cumsum_from) simp_all
  then show ?thesis by (simp add: cumsum_def)
qed

lemma length_transpose3:
  "length as = n \<Longrightarrow> length bs = n \<Longrightarrow> length cs = n \<Longrightarrow> length (transpose3 as bs cs) = n"
  by (induction as bs cs arbitrary: n rule: transpose3.induct) auto

lemma nth_transpose3:
  "length as = n \<Longrightarrow> length bs = n \<Longrightarrow> length cs = n \<Longrightarrow> k < n \<Longrightarrow>
     transpose3 as bs cs ! k = (as ! k, bs ! k, cs ! k)"
proof (induction as bs cs arbitrary: n k rule: transpose3.induct)
  case (1 a as b bs c cs)
  then show ?case by (cases k) auto
qed auto

text \<open>The number of orbitals of a site array whose family declares \<^verbatim>\<open>norbs\<close>.\<close>

lemma orbital_counts_declared:
  "list_all (\<lambda>arr. fam_norbs (sa_family arr) \<noteq> None) arrs \<Longrightarrow>
     orbital_counts arrs =
       Inr (map (\<lambda>arr. len_sa arr * the (fam_norbs (sa_family arr))) arrs)"
  by (induction arrs) auto

lemma those_declared:
  "list_all (\<lambda>arr. fam_norbs (sa_family arr) \<noteq> None) arrs \<Longrightarrow>
     those (map (\<lambda>arr. fam_norbs (sa_family arr)) arrs @ [Some 0]) =
       Some (map (\<lambda>arr. the (fam_norbs (sa_family arr))) arrs @ [0])"
  by (induction arrs) auto

lemma int_sum_list: "sum_list (map (\<lambda>x. int (f x)) xs) = int (sum_list (map f xs))"
  by (induction xs) simp_all

lemma fits_below_total:
  assumes "sum_list (map f xs) < 2 ^ 63"
  shows "list_all (\<lambda>x. fits_int64 (int (f x))) xs"
proof -
  have "fits_int64 (int (f x))" if "x \<in> set xs" for x
  proof -
    from that have "f x \<in> set (map f xs)" by simp
    then have "f x \<le> sum_list (map f xs)" by (auto intro: member_le_sum_list)
    with assms have "f x < 2 ^ 63" by simp
    then have "int (f x) < 2 ^ 63" by (simp add: of_nat_less_iff [of "f x" "2 ^ 63", symmetric])
    then show ?thesis by (simp add: fits_int64_def)
  qed
  then show ?thesis by (simp add: list_all_iff)
qed

text \<open>
  Claim C7 says that the last row of \<^verbatim>\<open>site_ranges\<close> holds the total number of orbitals.
  The offsets are sums of 64-bit integers.  For two site arrays of one site each, whose
  families have \<open>2\<^sup>6\<^sup>2\<close> orbitals, every entry fits, the total is \<open>2\<^sup>6\<^sup>3\<close>, and the
  last row holds \<open>- 2\<^sup>6\<^sup>3\<close>.
\<close>

theorem site_ranges_wraps:
  "list_all (\<lambda>arr. fam_norbs (sa_family arr) \<noteq> None) [example_wide_array, example_wide_array] \<and>
   site_ranges [example_wide_array, example_wide_array] =
     Inr (Int64Rows [(0, 2 ^ 62, 0), (1, 2 ^ 62, 2 ^ 62), (2, 0, - (2 ^ 63))]) \<and>
   int (sum_list (map (\<lambda>arr. len_sa arr * the (fam_norbs (sa_family arr)))
          [example_wide_array, example_wide_array])) = 2 ^ 63 \<and>
   (- (2 ^ 63) :: int) \<noteq> 2 ^ 63"
  by (simp add: site_ranges_def example_wide_array_def len_sa_def cumsum_def wrap_int64_def
      fits_int64_def)

text \<open>
  Claim C7, amended.  When every site array's family declares \<^verbatim>\<open>norbs\<close>, and the number
  of sites, every \<^verbatim>\<open>norbs\<close> and the number of orbitals are below \<open>2\<^sup>6\<^sup>3\<close>,
  \<^verbatim>\<open>site_ranges\<close> returns an array of 64-bit integers with one row per site array and
  one more: row \<open>k\<close> holds the number of sites in the arrays before \<open>k\<close>, the \<^verbatim>\<open>norbs\<close> of
  array \<open>k\<close>, and the number of orbitals in the arrays before \<open>k\<close>; the last row holds
  the total number of sites, zero, and the total number of orbitals.
\<close>

theorem site_ranges_rows:
  assumes declared: "list_all (\<lambda>arr. fam_norbs (sa_family arr) \<noteq> None) arrs"
    and sites: "sum_list (map len_sa arrs) < 2 ^ 63"
    and norbs: "list_all (\<lambda>arr. the (fam_norbs (sa_family arr)) < 2 ^ 63) arrs"
    and orbitals: "sum_list (map (\<lambda>arr. len_sa arr * the (fam_norbs (sa_family arr))) arrs)
        < 2 ^ 63"
  shows "\<exists>rows. site_ranges arrs = Inr (Int64Rows rows) \<and>
           length rows = length arrs + 1 \<and>
           (\<forall>k < length arrs.
              rows ! k =
                (int (sum_list (map len_sa (take k arrs))),
                 int (the (fam_norbs (sa_family (arrs ! k)))),
                 int (sum_list (map (\<lambda>arr. len_sa arr * the (fam_norbs (sa_family arr)))
                             (take k arrs))))) \<and>
           rows ! length arrs =
             (int (sum_list (map len_sa arrs)), 0,
              int (sum_list (map (\<lambda>arr. len_sa arr * the (fam_norbs (sa_family arr))) arrs)))"
proof -
  let ?nrb = "\<lambda>arr. the (fam_norbs (sa_family arr))"
  let ?orb = "\<lambda>arr. len_sa arr * ?nrb arr"
  let ?ls = "map (\<lambda>arr. int (len_sa arr)) arrs"
  let ?os = "map (\<lambda>arr. int (?orb arr)) arrs"
  let ?so = "cumsum (0 # ?ls)"
  let ?nb = "map int (map ?nrb arrs @ [0])"
  let ?oo = "cumsum (0 # ?os)"
  let ?rows = "transpose3 ?so ?nb ?oo"
  let ?n = "Suc (length arrs)"
  have fit_ls: "list_all fits_int64 ?ls"
    using fits_below_total [OF sites] by (simp add: list_all_iff)
  have fit_os: "list_all fits_int64 ?os"
    using fits_below_total [OF orbitals] by (simp add: list_all_iff)
  have fit_nb: "list_all fits_int64 ?nb"
  proof -
    have "fits_int64 (int (?nrb arr))" if "arr \<in> set arrs" for arr
    proof -
      from norbs that have "?nrb arr < 2 ^ 63" by (simp add: list_all_iff)
      then have "int (?nrb arr) < 2 ^ 63"
        by (simp add: of_nat_less_iff [of "?nrb arr" "2 ^ 63", symmetric])
      then show ?thesis by (simp add: fits_int64_def)
    qed
    then show ?thesis by (simp add: list_all_iff fits_int64_def)
  qed
  have fits: "list_all fits_int64 ((0 # ?ls) @ ?nb @ 0 # map int (map ?orb arrs))"
    using fit_ls fit_os fit_nb by (simp add: fits_int64_def comp_def)
  have eq: "site_ranges arrs = Inr (Int64Rows ?rows)"
    using fits
    by (simp add: site_ranges_def orbital_counts_declared [OF declared]
        those_declared [OF declared] comp_def)
  have nn_ls: "list_all (\<lambda>x. 0 \<le> x) ?ls" and nn_os: "list_all (\<lambda>x. 0 \<le> x) ?os"
    by (simp_all add: list_all_iff)
  have tot_ls: "sum_list ?ls < 2 ^ 63"
    using sites by (simp add: int_sum_list of_nat_less_iff [of _ "2 ^ 63", symmetric])
  have tot_os: "sum_list ?os < 2 ^ 63"
    using orbitals
    by (simp add: int_sum_list of_nat_less_iff [of _ "2 ^ 63", symmetric] del: of_nat_mult)
  have lens: "length ?so = ?n" "length ?nb = ?n" "length ?oo = ?n"
    by (simp_all add: length_cumsum0)
  have len: "length ?rows = length arrs + 1"
    using length_transpose3 [OF lens] by simp
  have row: "?rows ! k = (?so ! k, ?nb ! k, ?oo ! k)" if "k < ?n" for k
    using nth_transpose3 [OF lens that] .
  have so: "?so ! k = int (sum_list (map len_sa (take k arrs)))" if "k \<le> length arrs" for k
  proof -
    from that have "k \<le> length ?ls" by simp
    from nth_cumsum0 [OF nn_ls tot_ls this]
    have "?so ! k = sum_list (map (\<lambda>arr. int (len_sa arr)) (take k arrs))"
      by (simp add: take_map)
    then show ?thesis by (simp only: int_sum_list)
  qed
  have oo: "?oo ! k = int (sum_list (map ?orb (take k arrs)))" if "k \<le> length arrs" for k
  proof -
    from that have "k \<le> length ?os" by simp
    from nth_cumsum0 [OF nn_os tot_os this]
    have "?oo ! k = sum_list (map (\<lambda>arr. int (?orb arr)) (take k arrs))"
      by (simp add: take_map)
    then show ?thesis by (simp only: int_sum_list)
  qed
  have inner: "?rows ! k =
      (int (sum_list (map len_sa (take k arrs))), int (?nrb (arrs ! k)),
       int (sum_list (map ?orb (take k arrs))))" if k: "k < length arrs" for k
  proof -
    have "?nb ! k = int (?nrb (arrs ! k))"
      using k by (simp add: nth_append)
    with row [of k] so [of k] oo [of k] k show ?thesis by simp
  qed
  have final: "?rows ! length arrs =
      (int (sum_list (map len_sa arrs)), 0, int (sum_list (map ?orb arrs)))"
  proof -
    have "?nb ! length arrs = 0"
      by (simp add: nth_append)
    with row [of "length arrs"] so [of "length arrs"] oo [of "length arrs"]
    show ?thesis by simp
  qed
  from inner have inner': "\<forall>k < length arrs. ?rows ! k =
      (int (sum_list (map len_sa (take k arrs))), int (?nrb (arrs ! k)),
       int (sum_list (map ?orb (take k arrs))))" by (intro allI impI)
  from eq len inner' final show ?thesis by (intro exI conjI)
qed

text \<open>The theorem at two site arrays, of three sites with two orbitals and two with one.\<close>

theorem site_ranges_rows_witness:
  "list_all (\<lambda>arr. fam_norbs (sa_family arr) \<noteq> None)
     [\<lparr>sa_family = \<lparr>fam_name = ''a'', fam_norbs = Some 2\<rparr>, sa_tags = [[0], [1], [2]]\<rparr>,
      \<lparr>sa_family = \<lparr>fam_name = ''b'', fam_norbs = Some 1\<rparr>, sa_tags = [[0], [1]]\<rparr>] \<and>
   site_ranges
     [\<lparr>sa_family = \<lparr>fam_name = ''a'', fam_norbs = Some 2\<rparr>, sa_tags = [[0], [1], [2]]\<rparr>,
      \<lparr>sa_family = \<lparr>fam_name = ''b'', fam_norbs = Some 1\<rparr>, sa_tags = [[0], [1]]\<rparr>] =
   Inr (Int64Rows [(0, 2, 0), (3, 1, 6), (5, 0, 8)])"
  using site_ranges_rows
    [of "[\<lparr>sa_family = \<lparr>fam_name = ''a'', fam_norbs = Some 2\<rparr>, sa_tags = [[0], [1], [2]]\<rparr>,
          \<lparr>sa_family = \<lparr>fam_name = ''b'', fam_norbs = Some 1\<rparr>, sa_tags = [[0], [1]]\<rparr>]"]
  by (simp add: site_ranges_def cumsum_def len_sa_def wrap_int64_def fits_int64_def)

section \<open>Properties of \<^verbatim>\<open>_normalize_matrix_blocks\<close>\<close>











section \<open>Behaviour of \<^verbatim>\<open>Symmetry.in_fd\<close>\<close>

lemma logical_and_reduce_iff: "logical_and_reduce bs = list_all (\<lambda>b. b) bs"
proof -
  have "foldl (\<and>) a bs = (a \<and> list_all (\<lambda>b. b) bs)" for a
    by (induction bs arbitrary: a) auto
  then show ?thesis by (simp add: logical_and_reduce_def)
qed

lemma in_fd_scan_iff: "in_fd_scan w = list_all (\<lambda>d. d = 0) w"
  by (induction w) auto

lemma in_fd_array_rows:
  "which_array self a = Inr w \<Longrightarrow>
     in_fd self (ASiteArray a) = Inr (InFdArray (map (list_all (\<lambda>d. d \<noteq> 0)) w))"
  by (simp add: in_fd_def logical_and_reduce_iff list_all_iff)

text \<open>
  Claim C1 says that \<^verbatim>\<open>in_fd\<close> of a site array is true at a site exactly when
  \<^verbatim>\<open>which\<close> of that site is the identity, so that every entry of
  \<^verbatim>\<open>in_fd(to_fd(x))\<close> is true.  The code compares with \<^verbatim>\<open>!= 0\<close> before the reduction:
  by \<open>in_fd_array_rows\<close> an entry is true exactly when no coordinate is zero.  On the
  chain with period 3 the site with tag 1 has \<^verbatim>\<open>which\<close> \<open>(0)\<close> and the site with tag 4
  has \<open>(1)\<close>; for the array of the two the code answers false, true, while for the
  single sites it answers true, false; and the array mapped into the fundamental
  domain by \<^verbatim>\<open>to_fd\<close> gets false at every entry.
\<close>

theorem in_fd_array_inverted:
  "which_array (chain_symmetry 3) \<lparr>sa_family = chain_family, sa_tags = [[1], [4]]\<rparr> =
     Inr [[0], [1]] \<and>
   in_fd (chain_symmetry 3) (ASiteArray \<lparr>sa_family = chain_family, sa_tags = [[1], [4]]\<rparr>) =
     Inr (InFdArray [False, True]) \<and>
   in_fd (chain_symmetry 3) (ASite \<lparr>site_fam = chain_family, site_tag = [1]\<rparr>) =
     Inr (InFdBool True) \<and>
   in_fd (chain_symmetry 3) (ASite \<lparr>site_fam = chain_family, site_tag = [4]\<rparr>) =
     Inr (InFdBool False) \<and>
   to_fd (chain_symmetry 3) (ASiteArray \<lparr>sa_family = chain_family, sa_tags = [[1], [4]]\<rparr>) =
     Inr (ASiteArray \<lparr>sa_family = chain_family, sa_tags = [[1], [1]]\<rparr>) \<and>
   in_fd (chain_symmetry 3) (ASiteArray \<lparr>sa_family = chain_family, sa_tags = [[1], [1]]\<rparr>) =
     Inr (InFdArray [False, False])"
  by (simp add: in_fd_def to_fd_def chain_symmetry_def chain_which_def chain_act_def
      logical_and_reduce_def)

section \<open>Behaviour of \<^verbatim>\<open>InfiniteSystemMixin.modes\<close>\<close>

lemma modes_nonzero_energy:
  assumes "modes_arguments self energy args params = (warned, Inr (ham, hop, symmetries))"
    and "energy \<noteq> 0"
  shows "ds_attrs symmetries ''particle_hole'' = Some None \<and>
         ds_attrs symmetries ''chiral'' = Some None"
  using assms
  by (auto simp: modes_arguments_def Let_def setattr_none_def
      split: sum.splits prod.splits if_splits)

text \<open>
  Claim C2 says that \<^verbatim>\<open>modes\<close> disables every symmetry that validation reports as
  broken, by setting its attribute on the descriptor to \<^verbatim>\<open>None\<close>.  The table of
  attribute names maps \<^verbatim>\<open>Particle-hole\<close> to \<^verbatim>\<open>particle-hole\<close>, with a hyphen, while the
  attribute is \<^verbatim>\<open>particle_hole\<close>, as the assignment for a non-zero energy writes it.  At
  energy zero, with a validator that reports \<^verbatim>\<open>Particle-hole\<close> as broken, the warning
  is emitted and the descriptor handed to \<^verbatim>\<open>physics.modes\<close> still holds the
  particle-hole operator; a new attribute \<^verbatim>\<open>particle-hole\<close> is \<^verbatim>\<open>None\<close> instead.  A broken
  \<^verbatim>\<open>Chiral\<close> is disabled, and a non-zero energy disables both and is subtracted from
  the diagonal.
\<close>

theorem modes_keeps_broken_particle_hole:
  "(case modes_arguments (example_lead [''Particle-hole'']) 0 () () of
      (warned, Inl e) \<Rightarrow> False
    | (warned, Inr (ham, hop, symmetries)) \<Rightarrow>
        warned = [''Hamiltonian breaks Particle-hole, ignoring the symmetry in the computation.''] \<and>
        ds_attrs symmetries ''particle_hole'' = Some (Some example_operator) \<and>
        ds_attrs symmetries ''particle-hole'' = Some None) \<and>
   (case modes_arguments (example_lead [''Chiral'']) 0 () () of
      (warned, Inl e) \<Rightarrow> False
    | (warned, Inr (ham, hop, symmetries)) \<Rightarrow>
        warned = [''Hamiltonian breaks Chiral, ignoring the symmetry in the computation.''] \<and>
        ds_attrs symmetries ''chiral'' = Some None) \<and>
   (case modes_arguments (example_lead []) 1 () () of
      (warned, Inl e) \<Rightarrow> False
    | (warned, Inr (ham, hop, symmetries)) \<Rightarrow>
        ds_attrs symmetries ''particle_hole'' = Some None \<and>
        ds_attrs symmetries ''chiral'' = Some None \<and>
        ham = \<lparr>nd_shape = [2, 2], nd_data = [0, 2, 2, 0]\<rparr>)"
  by (simp add: modes_arguments_def example_lead_def example_symmetries_def example_ham_def example_hop_def
     attribute_names_def setattr_none_def subtract_diagonal_def Let_def upt_rec)

section \<open>Properties of \<^verbatim>\<open>precalculate\<close>\<close>

subsection \<open>The loop\<close>

lemma resolve_entries:
  "resolve heap as = Some entries \<Longrightarrow>
     map fst entries = as \<and> (\<forall>i < length as. lookup heap (as ! i) = Some (snd (entries ! i)))"
proof (induction as arbitrary: entries)
  case Nil
  then show ?case by simp
next
  case (Cons a as)
  from Cons.prems obtain ob rest where
    ob: "lookup heap a = Some ob" and rest: "resolve heap as = Some rest"
    and entries: "entries = (a, ob) # rest"
    by (auto split: option.splits)
  from Cons.IH [OF rest] have ih: "map fst rest = as"
    "\<forall>i < length as. lookup heap (as ! i) = Some (snd (rest ! i))" by simp_all
  show ?case
  proof (intro conjI allI impI)
    show "map fst entries = a # as" using entries ih(1) by simp
  next
    fix i assume "i < length (a # as)"
    then show "lookup heap ((a # as) ! i) = Some (snd (entries ! i))"
      using ob ih(2) entries by (cases i) simp_all
  qed
qed

lemma take_snoc:
  assumes "take (Suc (length xs)) ys = xs @ [x]"
  shows "take (length xs) ys = xs" and "ys ! length xs = x" and "length xs < length ys"
proof -
  have len: "length (take (Suc (length xs)) ys) = Suc (length xs)"
    using assms by simp
  then show lt: "length xs < length ys" by simp
  have "take (length xs) (take (Suc (length xs)) ys) = take (length xs) (xs @ [x])"
    using assms by simp
  then show "take (length xs) ys = xs" by (simp add: min_def)
  have "take (Suc (length xs)) ys ! length xs = (xs @ [x]) ! length xs"
    using assms by simp
  then show "ys ! length xs = x" by simp
qed

lemma loop_frame:
  "precalculate_loop what energy args params leads nr entries heap trace acc =
      (trace', Inr (heap', acc')) \<Longrightarrow>
   length heap \<le> length heap' \<and> take (length heap) heap' = heap \<and>
   length acc' = length acc + length entries \<and> take (length acc) acc' = acc \<and>
   (\<forall>i < length entries.
      if int (nr + i) \<in> set leads
      then length heap \<le> acc' ! (length acc + i) \<and>
           acc' ! (length acc + i) < length heap' \<and>
           (\<exists>evs p. compute_lead what (nr + i) (snd (entries ! i)) energy args params =
                       (evs, Inr p) \<and>
                    heap' ! (acc' ! (length acc + i)) = PrecalculatedObj p)
      else acc' ! (length acc + i) = fst (entries ! i))"
proof (induction entries arbitrary: nr heap trace acc)
  case Nil
  then show ?case by simp
next
  case (Cons entry rest)
  obtain a ob where entry: "entry = (a, ob)" by (cases entry)
  let ?P = "\<lambda>h c n i es. if int (n + i) \<in> set leads
        then length h \<le> acc' ! (length c + i) \<and>
             acc' ! (length c + i) < length heap' \<and>
             (\<exists>evs p. compute_lead what (n + i) (snd (es ! i)) energy args params =
                         (evs, Inr p) \<and>
                      heap' ! (acc' ! (length c + i)) = PrecalculatedObj p)
        else acc' ! (length c + i) = fst (es ! i)"
  show ?case
  proof (cases "int nr \<in> set leads")
    case False
    with Cons.prems entry have run:
      "precalculate_loop what energy args params leads (Suc nr) rest heap trace (acc @ [a]) =
         (trace', Inr (heap', acc'))" by simp
    note ih = Cons.IH [OF run]
    from ih have tk: "take (Suc (length acc)) acc' = acc @ [a]" by simp
    note sn = take_snoc [OF tk]
    have "?P heap acc nr i (entry # rest)" if i: "i < length (entry # rest)" for i
    proof (cases i)
      case 0
      then show ?thesis using False sn(2) entry by simp
    next
      case (Suc j)
      with i have "j < length rest" by simp
      with ih have "?P heap (acc @ [a]) (Suc nr) j rest" by blast
      then show ?thesis using Suc by (auto split: if_splits)
    qed
    then show ?thesis using ih sn(1) by simp
  next
    case True
    with Cons.prems entry obtain evs p where
      cl: "compute_lead what nr ob energy args params = (evs, Inr p)"
      and run: "precalculate_loop what energy args params leads (Suc nr) rest
         (heap @ [PrecalculatedObj p]) (trace @ evs) (acc @ [length heap]) =
         (trace', Inr (heap', acc'))"
      by (auto split: prod.splits sum.splits)
    note ih = Cons.IH [OF run]
    from ih have tk: "take (Suc (length acc)) acc' = acc @ [length heap]"
      and tkh: "take (Suc (length heap)) heap' = heap @ [PrecalculatedObj p]" by simp_all
    note sn = take_snoc [OF tk]
    note snh = take_snoc [OF tkh]
    have "?P heap acc nr i (entry # rest)" if i: "i < length (entry # rest)" for i
    proof (cases i)
      case 0
      then show ?thesis using True sn(2) snh(2) snh(3) entry cl by simp
    next
      case (Suc j)
      with i have "j < length rest" by simp
      with ih have "?P (heap @ [PrecalculatedObj p]) (acc @ [length heap]) (Suc nr) j rest"
        by blast
      then show ?thesis using Suc by (auto split: if_splits)
    qed
    then show ?thesis using ih sn(1) snh(1) by simp
  qed
qed

lemma loop_trace:
  "precalculate_loop what energy args params leads nr entries heap trace acc =
      (trace', outcome) \<Longrightarrow> ev \<in> set trace' \<Longrightarrow>
   ev \<in> set trace \<or>
   (\<exists>i < length entries. int (nr + i) \<in> set leads \<and>
      ev \<in> set (fst (compute_lead what (nr + i) (snd (entries ! i)) energy args params)))"
proof (induction entries arbitrary: nr heap trace acc)
  case Nil
  then show ?case by simp
next
  case (Cons entry rest)
  obtain a ob where entry: "entry = (a, ob)" by (cases entry)
  show ?case
  proof (cases "int nr \<in> set leads")
    case False
    with Cons.prems entry have run:
      "precalculate_loop what energy args params leads (Suc nr) rest heap trace (acc @ [a]) =
         (trace', outcome)" by simp
    from Cons.IH [OF run Cons.prems(2)] show ?thesis by fastforce
  next
    case True
    obtain evs r where cl: "compute_lead what nr ob energy args params = (evs, r)"
      by (cases "compute_lead what nr ob energy args params")
    show ?thesis
    proof (cases r)
      case (Inl e)
      with Cons.prems True entry cl have "trace' = trace @ evs" by simp
      with Cons.prems(2) cl entry True show ?thesis by fastforce
    next
      case (Inr p)
      with Cons.prems True entry cl have run:
        "precalculate_loop what energy args params leads (Suc nr) rest
           (heap @ [PrecalculatedObj p]) (trace @ evs) (acc @ [length heap]) =
           (trace', outcome)" by simp
      from Cons.IH [OF run Cons.prems(2)]
      consider "ev \<in> set trace" | "ev \<in> set evs"
        | i where "i < length rest" "int (Suc nr + i) \<in> set leads"
          "ev \<in> set (fst (compute_lead what (Suc nr + i) (snd (rest ! i)) energy args params))"
        by auto
      then show ?thesis
      proof cases
        case 1
        then show ?thesis by simp
      next
        case 2
        with cl entry True show ?thesis by fastforce
      next
        case 3
        then have "Suc i < length (entry # rest)" "int (nr + Suc i) \<in> set leads"
          "ev \<in> set (fst (compute_lead what (nr + Suc i) (snd ((entry # rest) ! Suc i))
              energy args params))" by simp_all
        then show ?thesis by blast
      qed
    qed
  qed
qed

lemma compute_lead_selfenergy_call:
  assumes "LeadSelfenergy k \<in> set (fst (compute_lead what nr ob energy args params))"
  shows "k = nr \<and>
         (what = ''selfenergy'' \<or>
          what = ''all'' \<and>
          (\<exists>m. call_modes ob energy args params = Inr m \<and> \<not> truthy_modes m))"
  using assms
  by (auto simp: compute_lead_def compute_modes_def compute_selfenergy_def call_modes_def
      split: if_splits sum.splits prod.splits option.splits)

lemma compute_lead_all:
  assumes "compute_lead ''all'' nr ob energy args params = (evs, Inr p)"
    and "call_modes ob energy args params = Inr m"
    and "truthy_modes m"
  shows "\<exists>parts. m = Some parts \<and> 1 < length parts \<and>
           pl_modes p = Some parts \<and>
           part_selfenergy (parts ! 1) = Some (Inr (pl_selfenergy p)) \<and>
           evs = [LeadModes nr, ModesSelfenergy nr]"
  using assms
  by (cases m)
     (auto simp: compute_lead_def compute_modes_def compute_selfenergy_def item1_def
      call_modes_def PrecalculatedLead_def
      split: if_splits sum.splits prod.splits option.splits)

lemma compute_lead_all_falsy:
  assumes "compute_lead ''all'' nr ob energy args params = (evs, Inr p)"
    and "call_modes ob energy args params = Inr m"
    and "\<not> truthy_modes m"
  shows "call_selfenergy ob energy args params = Inr (pl_selfenergy p) \<and>
           evs = [LeadModes nr, LeadSelfenergy nr]"
  using assms
  by (auto simp: compute_lead_def compute_modes_def compute_selfenergy_def
      call_modes_def call_selfenergy_def PrecalculatedLead_def
      split: if_splits sum.splits prod.splits option.splits)

lemma loop_trace_complete:
  "precalculate_loop what energy args params leads nr entries heap trace acc =
      (trace', Inr (heap', acc')) \<Longrightarrow>
   set trace \<subseteq> set trace' \<and>
   (\<forall>i < length entries. int (nr + i) \<in> set leads \<longrightarrow>
      set (fst (compute_lead what (nr + i) (snd (entries ! i)) energy args params))
        \<subseteq> set trace')"
proof (induction entries arbitrary: nr heap trace acc)
  case Nil
  then show ?case by simp
next
  case (Cons entry rest)
  obtain a ob where entry: "entry = (a, ob)" by (cases entry)
  let ?E = "\<lambda>n i es. set (fst (compute_lead what (n + i) (snd (es ! i)) energy args params))"
  show ?case
  proof (cases "int nr \<in> set leads")
    case False
    with Cons.prems entry have run:
      "precalculate_loop what energy args params leads (Suc nr) rest heap trace (acc @ [a]) =
         (trace', Inr (heap', acc'))" by simp
    note ih = Cons.IH [OF run]
    have "?E nr i (entry # rest) \<subseteq> set trace'"
      if "i < length (entry # rest)" "int (nr + i) \<in> set leads" for i
    proof (cases i)
      case 0
      with that False show ?thesis by simp
    next
      case (Suc j)
      with that have "j < length rest" "int (Suc nr + j) \<in> set leads" by simp_all
      with ih have "?E (Suc nr) j rest \<subseteq> set trace'" by blast
      then show ?thesis using Suc by simp
    qed
    then show ?thesis using ih by blast
  next
    case True
    with Cons.prems entry obtain evs p where
      cl: "compute_lead what nr ob energy args params = (evs, Inr p)"
      and run: "precalculate_loop what energy args params leads (Suc nr) rest
         (heap @ [PrecalculatedObj p]) (trace @ evs) (acc @ [length heap]) =
         (trace', Inr (heap', acc'))"
      by (auto split: prod.splits sum.splits)
    note ih = Cons.IH [OF run]
    have "?E nr i (entry # rest) \<subseteq> set trace'"
      if "i < length (entry # rest)" "int (nr + i) \<in> set leads" for i
    proof (cases i)
      case 0
      with ih cl entry show ?thesis by simp
    next
      case (Suc j)
      with that have "j < length rest" "int (Suc nr + j) \<in> set leads" by simp_all
      with ih have "?E (Suc nr) j rest \<subseteq> set trace'" by blast
      then show ?thesis using Suc by simp
    qed
    then show ?thesis using ih by auto
  qed
qed

lemma loop_total:
  "(\<forall>i < length entries. int (nr + i) \<in> set leads \<longrightarrow>
      (\<exists>evs p. compute_lead what (nr + i) (snd (entries ! i)) energy args params =
                 (evs, Inr p))) \<Longrightarrow>
   \<exists>trace' heap' acc'.
     precalculate_loop what energy args params leads nr entries heap trace acc =
       (trace', Inr (heap', acc'))"
proof (induction entries arbitrary: nr heap trace acc)
  case Nil
  then show ?case by simp
next
  case (Cons entry rest)
  obtain a ob where entry: "entry = (a, ob)" by (cases entry)
  have rest: "\<forall>i < length rest. int (Suc nr + i) \<in> set leads \<longrightarrow>
      (\<exists>evs p. compute_lead what (Suc nr + i) (snd (rest ! i)) energy args params =
                 (evs, Inr p))"
  proof (intro allI impI)
    fix i assume i: "i < length rest" "int (Suc nr + i) \<in> set leads"
    then have "Suc i < length (entry # rest)" "int (nr + Suc i) \<in> set leads" by simp_all
    from Cons.prems [rule_format, OF this]
    show "\<exists>evs p. compute_lead what (Suc nr + i) (snd (rest ! i)) energy args params =
                 (evs, Inr p)"
      by simp
  qed
  note ih = Cons.IH [OF rest]
  show ?case
  proof (cases "int nr \<in> set leads")
    case False
    from ih [of heap trace "acc @ [a]"] obtain t h c where
      "precalculate_loop what energy args params leads (Suc nr) rest heap trace (acc @ [a]) =
         (t, Inr (h, c))" by blast
    with False entry show ?thesis by simp
  next
    case True
    have "0 < length (entry # rest)" "int (nr + 0) \<in> set leads" using True by simp_all
    from Cons.prems [rule_format, OF this] entry
    obtain evs p where cl: "compute_lead what nr ob energy args params = (evs, Inr p)"
      by auto
    from ih [of "heap @ [PrecalculatedObj p]" "trace @ evs" "acc @ [length heap]"]
    obtain t h c where
      "precalculate_loop what energy args params leads (Suc nr) rest
         (heap @ [PrecalculatedObj p]) (trace @ evs) (acc @ [length heap]) =
         (t, Inr (h, c))" by blast
    with True entry cl show ?thesis by simp
  qed
qed

lemma resolve_total:
  "\<forall>a \<in> set as. a < length heap \<Longrightarrow> \<exists>entries. resolve heap as = Some entries"
  by (induction as) (auto simp: lookup_def)

subsection \<open>The method\<close>

lemma precalculate_returns:
  assumes run: "precalculate heap self energy args leads what params =
      (trace, Inr (heap', result))"
  obtains attrs la self_leads entries heap2 new_leads where
    "what \<in> set [''modes'', ''selfenergy'', ''all'']"
    "lookup heap self = Some (Instance attrs)"
    "attrs ''leads'' = Some la"
    "lookup heap la = Some (ListObj self_leads)"
    "resolve heap self_leads = Some entries"
    "precalculate_loop what energy args params (selection leads (length self_leads)) 0
       entries (heap @ [Instance attrs]) [] [] = (trace, Inr (heap2, new_leads))"
    "heap' = (heap2 @ [ListObj new_leads])
               [length heap := Instance (attrs(''leads'' \<mapsto> length heap2))]"
    "result = length heap"
proof -
  from run have w: "what \<in> set [''modes'', ''selfenergy'', ''all'']"
    by (auto simp: precalculate_def split: if_splits)
  from run w obtain attrs where self: "lookup heap self = Some (Instance attrs)"
    by (auto simp: precalculate_def split: if_splits option.splits obj.splits)
  from run w self obtain la where la: "attrs ''leads'' = Some la"
    by (auto simp: precalculate_def Let_def split: if_splits option.splits)
  from run w self la obtain self_leads where sl: "lookup heap la = Some (ListObj self_leads)"
    by (auto simp: precalculate_def Let_def split: if_splits option.splits obj.splits)
  from run w self la sl obtain entries where en: "resolve heap self_leads = Some entries"
    by (auto simp: precalculate_def Let_def split: if_splits option.splits)
  obtain t out where lp:
    "precalculate_loop what energy args params (selection leads (length self_leads)) 0
       entries (heap @ [Instance attrs]) [] [] = (t, out)"
    by (cases "precalculate_loop what energy args params
         (selection leads (length self_leads)) 0 entries (heap @ [Instance attrs]) [] []")
  from run w self la sl en lp obtain heap2 new_leads where
    "out = Inr (heap2, new_leads)" "t = trace"
    "heap' = (heap2 @ [ListObj new_leads])
               [length heap := Instance (attrs(''leads'' \<mapsto> length heap2))]"
    "result = length heap"
    by (cases out) (auto simp: precalculate_def Let_def split: if_splits)
  with that w self la sl en lp show ?thesis by blast
qed

lemma precalculate_trace:
  assumes run: "precalculate heap self energy args leads what params = (trace, outcome)"
    and ev: "ev \<in> set trace"
  obtains attrs la self_leads entries out where
    "lookup heap self = Some (Instance attrs)"
    "attrs ''leads'' = Some la"
    "lookup heap la = Some (ListObj self_leads)"
    "resolve heap self_leads = Some entries"
    "precalculate_loop what energy args params (selection leads (length self_leads)) 0
       entries (heap @ [Instance attrs]) [] [] = (trace, out)"
proof -
  from run ev have w: "what \<in> set [''modes'', ''selfenergy'', ''all'']"
    by (auto simp: precalculate_def split: if_splits)
  from run w ev obtain attrs where self: "lookup heap self = Some (Instance attrs)"
    by (auto simp: precalculate_def split: if_splits option.splits obj.splits)
  from run w self ev obtain la where la: "attrs ''leads'' = Some la"
    by (auto simp: precalculate_def Let_def split: if_splits option.splits)
  from run w self la ev obtain self_leads where
    sl: "lookup heap la = Some (ListObj self_leads)"
    by (auto simp: precalculate_def Let_def split: if_splits option.splits obj.splits)
  from run w self la sl ev obtain entries where en: "resolve heap self_leads = Some entries"
    by (auto simp: precalculate_def Let_def split: if_splits option.splits)
  obtain t out where lp:
    "precalculate_loop what energy args params (selection leads (length self_leads)) 0
       entries (heap @ [Instance attrs]) [] [] = (t, out)"
    by (cases "precalculate_loop what energy args params
         (selection leads (length self_leads)) 0 entries (heap @ [Instance attrs]) [] []")
  from run w self la sl en lp have "t = trace"
    by (cases out) (auto simp: precalculate_def Let_def split: if_splits)
  with that self la sl en lp show ?thesis by blast
qed

lemma loop_frame0:
  assumes lp: "precalculate_loop what energy args params leads 0 entries heap [] [] =
      (trace', Inr (heap', acc'))"
  shows "length heap \<le> length heap'" and "take (length heap) heap' = heap"
    and "length acc' = length entries"
    and "i < length entries \<Longrightarrow> int i \<in> set leads \<Longrightarrow>
           length heap \<le> acc' ! i \<and> acc' ! i < length heap' \<and>
           (\<exists>evs p. compute_lead what i (snd (entries ! i)) energy args params =
                       (evs, Inr p) \<and>
                    set evs \<subseteq> set trace' \<and>
                    heap' ! (acc' ! i) = PrecalculatedObj p)"
    and "i < length entries \<Longrightarrow> int i \<notin> set leads \<Longrightarrow> acc' ! i = fst (entries ! i)"
proof -
  note fr = loop_frame [OF lp]
  from fr show "length heap \<le> length heap'" by (rule conjunct1)
  from fr show "take (length heap) heap' = heap" by blast
  from fr have "length acc' = length ([] :: addr list) + length entries" by blast
  then show "length acc' = length entries" by simp
  from fr have each: "\<forall>i < length entries.
      if int (0 + i) \<in> set leads
      then length heap \<le> acc' ! (length ([] :: addr list) + i) \<and>
           acc' ! (length ([] :: addr list) + i) < length heap' \<and>
           (\<exists>evs p. compute_lead what (0 + i) (snd (entries ! i)) energy args params =
                       (evs, Inr p) \<and>
                    heap' ! (acc' ! (length ([] :: addr list) + i)) = PrecalculatedObj p)
      else acc' ! (length ([] :: addr list) + i) = fst (entries ! i)" by blast
  {
    assume i: "i < length entries" and sel: "int i \<in> set leads"
    from sel have sel0: "int (0 + i) \<in> set leads" by simp
    from each [rule_format, OF i] sel0 have
      "length heap \<le> acc' ! (length ([] :: addr list) + i) \<and>
           acc' ! (length ([] :: addr list) + i) < length heap' \<and>
           (\<exists>evs p. compute_lead what (0 + i) (snd (entries ! i)) energy args params =
                       (evs, Inr p) \<and>
                    heap' ! (acc' ! (length ([] :: addr list) + i)) = PrecalculatedObj p)"
      by (simp only: if_True)
    then have *: "length heap \<le> acc' ! i \<and> acc' ! i < length heap' \<and>
           (\<exists>evs p. compute_lead what i (snd (entries ! i)) energy args params =
                       (evs, Inr p) \<and> heap' ! (acc' ! i) = PrecalculatedObj p)"
      by simp
    from loop_trace_complete [OF lp] i sel0
    have "set (fst (compute_lead what (0 + i) (snd (entries ! i)) energy args params))
        \<subseteq> set trace'" by blast
    then have "set (fst (compute_lead what i (snd (entries ! i)) energy args params))
        \<subseteq> set trace'" by simp
    with * show "length heap \<le> acc' ! i \<and> acc' ! i < length heap' \<and>
           (\<exists>evs p. compute_lead what i (snd (entries ! i)) energy args params =
                       (evs, Inr p) \<and>
                    set evs \<subseteq> set trace' \<and>
                    heap' ! (acc' ! i) = PrecalculatedObj p)"
      by auto
  }
  {
    assume i: "i < length entries" and sel: "int i \<notin> set leads"
    from sel have sel0: "int (0 + i) \<notin> set leads" by simp
    from each [rule_format, OF i] sel0 have
      "acc' ! (length ([] :: addr list) + i) = fst (entries ! i)"
      by (simp only: if_False)
    then show "acc' ! i = fst (entries ! i)" by simp
  }
qed

lemma store_after:
  assumes lt: "length heap < length heap2"
    and tk: "take (Suc (length heap)) heap2 = heap @ [x]"
    and h': "heap' = (heap2 @ [y])[length heap := z]"
  shows "take (length heap) heap' = heap"
    and "lookup heap' (length heap) = Some z"
    and "lookup heap' (length heap2) = Some y"
    and "length heap < a \<Longrightarrow> a < length heap2 \<Longrightarrow> lookup heap' a = Some (heap2 ! a)"
proof -
  have "take (length heap) (take (Suc (length heap)) heap2) = take (length heap) (heap @ [x])"
    by (simp only: tk)
  then have tk0: "take (length heap) heap2 = heap" by (simp add: min_def)
  show "take (length heap) heap' = heap"
    using tk0 lt by (simp add: h')
  show "lookup heap' (length heap) = Some z"
    using lt by (simp add: h' lookup_def)
  show "lookup heap' (length heap2) = Some y"
    using lt by (simp add: h' lookup_def nth_append)
  show "lookup heap' a = Some (heap2 ! a)" if "length heap < a" "a < length heap2"
    using that by (simp add: h' lookup_def nth_append)
qed

lemma precalculate_result:
  assumes run: "precalculate heap self energy args leads what params =
      (trace, Inr (heap', result))"
  obtains attrs la self_leads new_la new_leads where
    "lookup heap self = Some (Instance attrs)"
    "attrs ''leads'' = Some la"
    "lookup heap la = Some (ListObj self_leads)"
    "result = length heap"
    "take (length heap) heap' = heap"
    "lookup heap' result = Some (Instance (attrs(''leads'' \<mapsto> new_la)))"
    "length heap < new_la"
    "lookup heap' new_la = Some (ListObj new_leads)"
    "length new_leads = length self_leads"
    "\<And>nr. nr < length self_leads \<Longrightarrow>
       int nr \<in> set (selection leads (length self_leads)) \<Longrightarrow>
       length heap < new_leads ! nr \<and>
       (\<exists>ob evs p. lookup heap (self_leads ! nr) = Some ob \<and>
          compute_lead what nr ob energy args params = (evs, Inr p) \<and>
          set evs \<subseteq> set trace \<and>
          lookup heap' (new_leads ! nr) = Some (PrecalculatedObj p))"
    "\<And>nr. nr < length self_leads \<Longrightarrow>
       int nr \<notin> set (selection leads (length self_leads)) \<Longrightarrow>
       new_leads ! nr = self_leads ! nr"
proof -
  obtain attrs la self_leads entries heap2 new_leads where
    valid: "what \<in> set [''modes'', ''selfenergy'', ''all'']" and
    self: "lookup heap self = Some (Instance attrs)"
    and la: "attrs ''leads'' = Some la"
    and sl: "lookup heap la = Some (ListObj self_leads)"
    and en: "resolve heap self_leads = Some entries"
    and lp: "precalculate_loop what energy args params (selection leads (length self_leads)) 0
       entries (heap @ [Instance attrs]) [] [] = (trace, Inr (heap2, new_leads))"
    and h': "heap' = (heap2 @ [ListObj new_leads])
               [length heap := Instance (attrs(''leads'' \<mapsto> length heap2))]"
    and res: "result = length heap"
    by (rule precalculate_returns [OF run])
  let ?sel = "selection leads (length self_leads)"
  from resolve_entries [OF en] have fsts: "map fst entries = self_leads"
    and snds: "\<forall>i < length self_leads. lookup heap (self_leads ! i) = Some (snd (entries ! i))"
    by blast+
  have "length (map fst entries) = length self_leads"
    by (simp only: fsts)
  then have len_en: "length entries = length self_leads" by simp
  note fr = loop_frame0 [OF lp]
  from fr(1) have lt: "length heap < length heap2" by simp
  from fr(2) have tk: "take (Suc (length heap)) heap2 = heap @ [Instance attrs]" by simp
  note st = store_after [OF lt tk h']
  have len: "length new_leads = length self_leads"
    using fr(3) len_en by simp
  have at_res: "lookup heap' result = Some (Instance (attrs(''leads'' \<mapsto> length heap2)))"
    using st(2) res by simp
  have selected: "length heap < new_leads ! nr \<and>
       (\<exists>ob evs p. lookup heap (self_leads ! nr) = Some ob \<and>
          compute_lead what nr ob energy args params = (evs, Inr p) \<and>
          set evs \<subseteq> set trace \<and>
          lookup heap' (new_leads ! nr) = Some (PrecalculatedObj p))"
    if nr: "nr < length self_leads" and sel: "int nr \<in> set ?sel" for nr
  proof -
    from nr len_en have i: "nr < length entries" by simp
    from fr(4) [OF i sel] obtain evs p where
      lo: "length (heap @ [Instance attrs]) \<le> new_leads ! nr"
      and hi: "new_leads ! nr < length heap2"
      and cl: "compute_lead what nr (snd (entries ! nr)) energy args params = (evs, Inr p)"
      and sub: "set evs \<subseteq> set trace"
      and at: "heap2 ! (new_leads ! nr) = PrecalculatedObj p"
      by blast
    from lo have gt: "length heap < new_leads ! nr" by simp
    from st(4) [OF gt hi] at
    have at': "lookup heap' (new_leads ! nr) = Some (PrecalculatedObj p)" by simp
    from snds nr have old: "lookup heap (self_leads ! nr) = Some (snd (entries ! nr))"
      by blast
    from old cl sub at' gt show ?thesis by blast
  qed
  have unselected: "new_leads ! nr = self_leads ! nr"
    if nr: "nr < length self_leads" and sel: "int nr \<notin> set ?sel" for nr
  proof -
    from nr len_en have i: "nr < length entries" by simp
    have "self_leads ! nr = map fst entries ! nr" by (simp only: fsts)
    also have "\<dots> = fst (entries ! nr)" using i by simp
    finally show ?thesis using fr(5) [OF i sel] by simp
  qed
  show ?thesis
    by (rule that [OF self la sl res st(1) at_res lt st(3) len selected unselected])
qed

lemma compute_lead_all_modes:
  assumes "compute_lead ''all'' nr ob energy args params = (evs, Inr p)"
  shows "\<exists>m. call_modes ob energy args params = Inr m \<and> pl_modes p = m \<and>
           LeadModes nr \<in> set evs"
  using assms
  by (auto simp: compute_lead_def compute_modes_def compute_selfenergy_def call_modes_def
      PrecalculatedLead_def split: if_splits sum.splits prod.splits option.splits)

lemma precalculate_total:
  assumes w: "what \<in> set [''modes'', ''selfenergy'', ''all'']"
    and self: "lookup heap self = Some (Instance attrs)"
    and la: "attrs ''leads'' = Some la"
    and sl: "lookup heap la = Some (ListObj self_leads)"
    and valid: "\<forall>a \<in> set self_leads. a < length heap"
    and ok: "\<forall>nr < length self_leads.
        int nr \<in> set (selection leads (length self_leads)) \<longrightarrow>
        (\<exists>ob evs p. lookup heap (self_leads ! nr) = Some ob \<and>
           compute_lead what nr ob energy args params = (evs, Inr p))"
  shows "\<exists>trace heap'. precalculate heap self energy args leads what params =
           (trace, Inr (heap', length heap))"
proof -
  let ?sel = "selection leads (length self_leads)"
  from resolve_total [OF valid] obtain entries where
    en: "resolve heap self_leads = Some entries" ..
  from resolve_entries [OF en] have fsts: "map fst entries = self_leads"
    and snds: "\<forall>i < length self_leads. lookup heap (self_leads ! i) = Some (snd (entries ! i))"
    by (rule conjunct1, rule conjunct2)
  have "length (map fst entries) = length self_leads"
    by (simp only: fsts)
  then have len_en: "length entries = length self_leads" by simp
  have each: "\<forall>i < length entries. int (0 + i) \<in> set ?sel \<longrightarrow>
      (\<exists>evs p. compute_lead what (0 + i) (snd (entries ! i)) energy args params =
                 (evs, Inr p))"
  proof (intro allI impI)
    fix i assume i: "i < length entries" and sel: "int (0 + i) \<in> set ?sel"
    from i len_en have i': "i < length self_leads" by simp
    from sel have sel': "int i \<in> set ?sel" by simp
    from ok [rule_format, OF i' sel'] obtain ob evs p where
      ob: "lookup heap (self_leads ! i) = Some ob"
      and cl: "compute_lead what i ob energy args params = (evs, Inr p)" by auto
    from snds [rule_format, OF i'] ob have "ob = snd (entries ! i)" by simp
    with cl show "\<exists>evs p. compute_lead what (0 + i) (snd (entries ! i)) energy args params =
                 (evs, Inr p)" by simp
  qed
  from loop_total [OF each, of "heap @ [Instance attrs]" "[]" "[]"]
  obtain t h c where lp:
    "precalculate_loop what energy args params ?sel 0 entries (heap @ [Instance attrs]) [] [] =
       (t, Inr (h, c))" by auto
  from w have nw: "(what \<notin> set [''modes'', ''selfenergy'', ''all'']) = False" by simp
  have "precalculate heap self energy args leads what params =
      (t, Inr ((h @ [ListObj c])[length heap := Instance (attrs(''leads'' \<mapsto> length h))],
               length heap))"
    unfolding precalculate_def
    by (simp only: nw if_False self la sl en lp Let_def option.case obj.case prod.case
        sum.case)
  then show ?thesis by (intro exI)
qed

lemma precalculate_selfenergy_calls:
  assumes run: "precalculate heap self energy args leads what params = (trace, outcome)"
    and ev: "LeadSelfenergy k \<in> set trace"
  obtains attrs la self_leads ob where
    "lookup heap self = Some (Instance attrs)"
    "attrs ''leads'' = Some la"
    "lookup heap la = Some (ListObj self_leads)"
    "k < length self_leads"
    "int k \<in> set (selection leads (length self_leads))"
    "lookup heap (self_leads ! k) = Some ob"
    "what = ''selfenergy'' \<or>
     what = ''all'' \<and> (\<exists>m. call_modes ob energy args params = Inr m \<and> \<not> truthy_modes m)"
proof -
  obtain attrs la self_leads entries out where
    self: "lookup heap self = Some (Instance attrs)"
    and la: "attrs ''leads'' = Some la"
    and sl: "lookup heap la = Some (ListObj self_leads)"
    and en: "resolve heap self_leads = Some entries"
    and lp: "precalculate_loop what energy args params (selection leads (length self_leads)) 0
       entries (heap @ [Instance attrs]) [] [] = (trace, out)"
    by (rule precalculate_trace [OF run ev])
  let ?sel = "selection leads (length self_leads)"
  from resolve_entries [OF en] have fsts: "map fst entries = self_leads"
    and snds: "\<forall>i < length self_leads. lookup heap (self_leads ! i) = Some (snd (entries ! i))"
    by (rule conjunct1, rule conjunct2)
  have "length (map fst entries) = length self_leads"
    by (simp only: fsts)
  then have len_en: "length entries = length self_leads" by simp
  from loop_trace [OF lp ev] obtain i where i: "i < length entries"
    and sel: "int (0 + i) \<in> set ?sel"
    and mem: "LeadSelfenergy k \<in>
       set (fst (compute_lead what (0 + i) (snd (entries ! i)) energy args params))"
    by auto
  from compute_lead_selfenergy_call [OF mem] have k: "k = i"
    and why: "what = ''selfenergy'' \<or>
     what = ''all'' \<and> (\<exists>m. call_modes (snd (entries ! i)) energy args params = Inr m \<and>
        \<not> truthy_modes m)"
    by simp_all
  from i len_en k have kl: "k < length self_leads" by simp
  from sel k have ks: "int k \<in> set ?sel" by simp
  from snds [rule_format, OF kl] k
  have ob: "lookup heap (self_leads ! k) = Some (snd (entries ! i))" by simp
  show ?thesis by (rule that [OF self la sl kl ks ob why])
qed

lemma lookup_mem: "lookup heap a = Some ob \<Longrightarrow> ob \<in> set heap"
  by (auto simp: lookup_def split: if_splits)

subsection \<open>Where the self-energy comes from\<close>

text \<open>
  Claim C4 says that with \<open>what = ''all''\<close> the self-energy of a selected lead is taken
  from the computed modes and that the lead's own \<^verbatim>\<open>selfenergy\<close> is called only when
  \<open>what = ''selfenergy''\<close>.  The code tests \<^verbatim>\<open>if modes:\<close>, so a modes result that is
  \<^verbatim>\<open>None\<close> or an empty tuple sends it to \<^verbatim>\<open>lead.selfenergy\<close> also when \<open>what = ''all''\<close>.
  On the system whose only lead has \<^verbatim>\<open>modes\<close> returning the empty tuple,
  \<^verbatim>\<open>precalculate\<close> with \<open>what = ''all''\<close> calls the lead's \<^verbatim>\<open>modes\<close>, then the lead's
  \<^verbatim>\<open>selfenergy\<close>, and returns.
\<close>

theorem precalculate_all_calls_lead_selfenergy:
  "precalculate example_empty_store 3 0 [] None ''all'' None =
     ([LeadModes 0, LeadSelfenergy 0],
      Inr (example_empty_store @
             [Instance [''graph'' \<mapsto> 0, ''leads'' \<mapsto> 6],
              PrecalculatedObj
                \<lparr>pl_modes = Some [], pl_selfenergy = Some example_sigma, pl_parameters = {}\<rparr>,
              ListObj [5]],
           4)) \<and>
   call_modes (LeadObj example_empty_modes_lead) 0 [] None = Inr (Some []) \<and>
   LeadSelfenergy 0 \<in> set (fst (precalculate example_empty_store 3 0 [] None ''all'' None)) \<and>
   ''all'' \<noteq> ''selfenergy''"
  by (simp add: precalculate_def example_empty_store_def lookup_def selection_def
      compute_lead_def compute_modes_def compute_selfenergy_def getattr_modes_def
      getattr_selfenergy_def call_modes_def example_empty_modes_lead_def
      PrecalculatedLead_def Let_def eval_nat_numeral)

text \<open>
  Claim C4, amended.  Let \<open>self\<close> be a system object of the store and \<open>self_leads\<close> the
  entries of its list of leads; \<open>trace\<close> is the list of the calls that \<^verbatim>\<open>precalculate\<close>
  made, whether it returned or raised.

  \<^item> The \<^verbatim>\<open>selfenergy\<close> operation of a lead is called only for a selected lead, and only
    when \<open>what = ''selfenergy''\<close>, or when \<open>what = ''all''\<close> and the lead's \<^verbatim>\<open>modes\<close>
    returned \<^verbatim>\<open>None\<close> or an empty tuple.
  \<^item> With \<open>what = ''all''\<close>, when \<^verbatim>\<open>precalculate\<close> returns: for every selected lead, the
    lead's \<^verbatim>\<open>modes\<close> was called, and its result is the modes of the \<^verbatim>\<open>PrecalculatedLead\<close>
    that stands in the new list.
  \<^item> When that result is a non-empty tuple, it has at least two entries, the
    \<^verbatim>\<open>selfenergy()\<close> of its second entry was called and gave the self-energy of the
    \<^verbatim>\<open>PrecalculatedLead\<close>, and the lead's own \<^verbatim>\<open>selfenergy\<close> was not called.
  \<^item> When that result is \<^verbatim>\<open>None\<close> or an empty tuple, the lead's own \<^verbatim>\<open>selfenergy\<close> was
    called and gave the self-energy of the \<^verbatim>\<open>PrecalculatedLead\<close>.
\<close>

theorem precalculate_selfenergy_from_modes:
  assumes run: "precalculate heap self energy args leads what params = (trace, outcome)"
    and self: "lookup heap self = Some (Instance attrs)"
    and la: "attrs ''leads'' = Some la"
    and sl: "lookup heap la = Some (ListObj self_leads)"
  shows
    "(\<forall>k. LeadSelfenergy k \<in> set trace \<longrightarrow>
        k < length self_leads \<and> int k \<in> set (selection leads (length self_leads)) \<and>
        (what = ''selfenergy'' \<or>
         what = ''all'' \<and>
         (\<exists>ob m. lookup heap (self_leads ! k) = Some ob \<and>
            call_modes ob energy args params = Inr m \<and> \<not> truthy_modes m))) \<and>
     (\<forall>heap' result. what = ''all'' \<longrightarrow> outcome = Inr (heap', result) \<longrightarrow>
        (\<exists>new_la new_leads.
           lookup heap' result = Some (Instance (attrs(''leads'' \<mapsto> new_la))) \<and>
           lookup heap' new_la = Some (ListObj new_leads) \<and>
           (\<forall>nr < length self_leads.
              int nr \<in> set (selection leads (length self_leads)) \<longrightarrow>
              (\<exists>ob m p. lookup heap (self_leads ! nr) = Some ob \<and>
                 LeadModes nr \<in> set trace \<and>
                 call_modes ob energy args params = Inr m \<and>
                 lookup heap' (new_leads ! nr) = Some (PrecalculatedObj p) \<and>
                 pl_modes p = m \<and>
                 (truthy_modes m \<longrightarrow>
                    (\<exists>parts. m = Some parts \<and> 1 < length parts \<and>
                       ModesSelfenergy nr \<in> set trace \<and>
                       LeadSelfenergy nr \<notin> set trace \<and>
                       part_selfenergy (parts ! 1) = Some (Inr (pl_selfenergy p)))) \<and>
                 (\<not> truthy_modes m \<longrightarrow>
                    LeadSelfenergy nr \<in> set trace \<and>
                    call_selfenergy ob energy args params = Inr (pl_selfenergy p))))))"
proof -
  let ?sel = "selection leads (length self_leads)"
  let ?from_modes = "\<lambda>nr m p. \<exists>parts. m = Some parts \<and> 1 < length parts \<and>
                       ModesSelfenergy nr \<in> set trace \<and>
                       LeadSelfenergy nr \<notin> set trace \<and>
                       part_selfenergy (parts ! 1) = Some (Inr (pl_selfenergy p))"
  let ?from_lead = "\<lambda>nr ob p. LeadSelfenergy nr \<in> set trace \<and>
                    call_selfenergy ob energy args params = Inr (pl_selfenergy p)"
  let ?lead = "\<lambda>heap' new_leads nr.
      \<exists>ob m p. lookup heap (self_leads ! nr) = Some ob \<and>
         LeadModes nr \<in> set trace \<and>
         call_modes ob energy args params = Inr m \<and>
         lookup heap' (new_leads ! nr) = Some (PrecalculatedObj p) \<and>
         pl_modes p = m \<and>
         (truthy_modes m \<longrightarrow> ?from_modes nr m p) \<and>
         (\<not> truthy_modes m \<longrightarrow> ?from_lead nr ob p)"
  have calls: "k < length self_leads \<and> int k \<in> set ?sel \<and>
        (what = ''selfenergy'' \<or>
         what = ''all'' \<and>
         (\<exists>ob m. lookup heap (self_leads ! k) = Some ob \<and>
            call_modes ob energy args params = Inr m \<and> \<not> truthy_modes m))"
    if ev: "LeadSelfenergy k \<in> set trace" for k
  proof -
    obtain attrs0 la0 self_leads0 ob where
      self0: "lookup heap self = Some (Instance attrs0)"
      and la0: "attrs0 ''leads'' = Some la0"
      and sl0: "lookup heap la0 = Some (ListObj self_leads0)"
      and kl: "k < length self_leads0"
      and ks: "int k \<in> set (selection leads (length self_leads0))"
      and ob: "lookup heap (self_leads0 ! k) = Some ob"
      and why: "what = ''selfenergy'' \<or>
         what = ''all'' \<and>
         (\<exists>m. call_modes ob energy args params = Inr m \<and> \<not> truthy_modes m)"
      by (rule precalculate_selfenergy_calls [OF run ev])
    from self self0 have a0: "attrs0 = attrs" by simp
    from la la0 a0 have l0: "la0 = la" by simp
    from sl sl0 l0 have s0: "self_leads0 = self_leads" by simp
    from why ob have "what = ''selfenergy'' \<or>
         what = ''all'' \<and>
         (\<exists>ob m. lookup heap (self_leads0 ! k) = Some ob \<and>
            call_modes ob energy args params = Inr m \<and> \<not> truthy_modes m)"
      by auto
    with kl ks show ?thesis by (simp only: s0)
  qed
  have all: "\<exists>new_la new_leads.
           lookup heap' result = Some (Instance (attrs(''leads'' \<mapsto> new_la))) \<and>
           lookup heap' new_la = Some (ListObj new_leads) \<and>
           (\<forall>nr < length self_leads. int nr \<in> set ?sel \<longrightarrow> ?lead heap' new_leads nr)"
    if w: "what = ''all''" and out: "outcome = Inr (heap', result)" for heap' result
  proof -
    from run out have run': "precalculate heap self energy args leads what params =
        (trace, Inr (heap', result))" by simp
    obtain attrs0 la0 self_leads0 new_la new_leads where
      self0: "lookup heap self = Some (Instance attrs0)"
      and la0: "attrs0 ''leads'' = Some la0"
      and sl0: "lookup heap la0 = Some (ListObj self_leads0)"
      and res: "result = length heap"
      and frame: "take (length heap) heap' = heap"
      and at_res: "lookup heap' result = Some (Instance (attrs0(''leads'' \<mapsto> new_la)))"
      and fresh: "length heap < new_la"
      and at_la: "lookup heap' new_la = Some (ListObj new_leads)"
      and len: "length new_leads = length self_leads0"
      and selected: "\<And>nr. nr < length self_leads0 \<Longrightarrow>
         int nr \<in> set (selection leads (length self_leads0)) \<Longrightarrow>
         length heap < new_leads ! nr \<and>
         (\<exists>ob evs p. lookup heap (self_leads0 ! nr) = Some ob \<and>
            compute_lead what nr ob energy args params = (evs, Inr p) \<and>
            set evs \<subseteq> set trace \<and>
            lookup heap' (new_leads ! nr) = Some (PrecalculatedObj p))"
      and unselected: "\<And>nr. nr < length self_leads0 \<Longrightarrow>
         int nr \<notin> set (selection leads (length self_leads0)) \<Longrightarrow>
         new_leads ! nr = self_leads0 ! nr"
      apply (rule precalculate_result [OF run'])
      subgoal premises prems for a b c d e
        by (rule prems(1) [OF prems(2-)])
      done
    from self self0 have a0: "attrs0 = attrs" by simp
    from la la0 a0 have l0: "la0 = la" by simp
    from sl sl0 l0 have s0: "self_leads0 = self_leads" by simp
    from at_res a0 have at_res':
      "lookup heap' result = Some (Instance (attrs(''leads'' \<mapsto> new_la)))" by simp
    have each: "?lead heap' new_leads nr"
      if nr: "nr < length self_leads" and sel: "int nr \<in> set ?sel" for nr
    proof -
      from selected [unfolded s0, OF nr sel] obtain ob evs p where
        ob: "lookup heap (self_leads ! nr) = Some ob"
        and cl: "compute_lead what nr ob energy args params = (evs, Inr p)"
        and sub: "set evs \<subseteq> set trace"
        and at: "lookup heap' (new_leads ! nr) = Some (PrecalculatedObj p)"
        by (elim conjE exE)
      from cl w have cl': "compute_lead ''all'' nr ob energy args params = (evs, Inr p)"
        by simp
      from compute_lead_all_modes [OF cl'] obtain m where
        m: "call_modes ob energy args params = Inr m" and pm: "pl_modes p = m"
        and lm: "LeadModes nr \<in> set evs" by (elim conjE exE)
      from sub lm have lm': "LeadModes nr \<in> set trace" by (rule subsetD)
      have derived: "?from_modes nr m p" if t: "truthy_modes m"
      proof -
        from compute_lead_all [OF cl' m t] obtain parts where
          parts: "m = Some parts" and two: "1 < length parts"
          and pp: "pl_modes p = Some parts"
          and se: "part_selfenergy (parts ! 1) = Some (Inr (pl_selfenergy p))"
          and evs: "evs = [LeadModes nr, ModesSelfenergy nr]" by (elim conjE exE)
        from evs have "ModesSelfenergy nr \<in> set evs" by simp
        with sub have ms: "ModesSelfenergy nr \<in> set trace" by (rule subsetD)
        have no: "LeadSelfenergy nr \<notin> set trace"
        proof
          assume "LeadSelfenergy nr \<in> set trace"
          from calls [OF this] w obtain ob' m' where
            ob': "lookup heap (self_leads ! nr) = Some ob'"
            and m': "call_modes ob' energy args params = Inr m'"
            and f: "\<not> truthy_modes m'" by auto
          from ob ob' have "ob' = ob" by simp
          with m m' have "m' = m" by simp
          with f t show False by simp
        qed
        from parts two ms no se show ?thesis by (intro exI conjI)
      qed
      then have imp: "truthy_modes m \<longrightarrow> ?from_modes nr m p" by (rule impI)
      have fallback: "?from_lead nr ob p" if f: "\<not> truthy_modes m"
      proof -
        from compute_lead_all_falsy [OF cl' m f]
        have se: "call_selfenergy ob energy args params = Inr (pl_selfenergy p)"
          and evs: "evs = [LeadModes nr, LeadSelfenergy nr]" by simp_all
        from evs have "LeadSelfenergy nr \<in> set evs" by simp
        with sub have "LeadSelfenergy nr \<in> set trace" by (rule subsetD)
        then show ?thesis using se by (rule conjI)
      qed
      then have imp': "\<not> truthy_modes m \<longrightarrow> ?from_lead nr ob p" by (rule impI)
      from ob lm' m at pm imp imp' show ?thesis by (intro exI conjI)
    qed
    then have every: "\<forall>nr < length self_leads. int nr \<in> set ?sel \<longrightarrow> ?lead heap' new_leads nr"
      by (intro allI impI)
    from at_res' at_la every show ?thesis by (intro exI conjI)
  qed
  from calls have c1: "\<forall>k. LeadSelfenergy k \<in> set trace \<longrightarrow>
        k < length self_leads \<and> int k \<in> set ?sel \<and>
        (what = ''selfenergy'' \<or>
         what = ''all'' \<and>
         (\<exists>ob m. lookup heap (self_leads ! k) = Some ob \<and>
            call_modes ob energy args params = Inr m \<and> \<not> truthy_modes m))"
    by (intro allI impI)
  from all have c2: "\<forall>heap' result. what = ''all'' \<longrightarrow> outcome = Inr (heap', result) \<longrightarrow>
        (\<exists>new_la new_leads.
           lookup heap' result = Some (Instance (attrs(''leads'' \<mapsto> new_la))) \<and>
           lookup heap' new_la = Some (ListObj new_leads) \<and>
           (\<forall>nr < length self_leads. int nr \<in> set ?sel \<longrightarrow> ?lead heap' new_leads nr))"
    by (intro allI impI)
  from c1 c2 show ?thesis by (intro conjI)
qed

text \<open>
  The theorem at the example systems: with \<open>what = ''selfenergy''\<close> the second lead's
  \<^verbatim>\<open>selfenergy\<close> is called; with \<open>what = ''all''\<close> and the first lead selected, its modes
  are computed and the self-energy is taken from them; with \<open>what = ''all''\<close> and a lead
  whose modes are the empty tuple, the self-energy is the lead's own.
\<close>

theorem precalculate_selfenergy_from_modes_witness:
  "(\<exists>trace outcome.
      precalculate example_store 4 0 [] None ''selfenergy'' None = (trace, outcome) \<and>
      LeadSelfenergy 1 \<in> set trace \<and>
      int 1 \<in> set (selection None (length [1, 2 :: addr]))) \<and>
   (\<exists>trace heap' new_la new_leads parts p.
      precalculate example_store 4 0 [] (Some [0]) ''all'' None = (trace, Inr (heap', 5)) \<and>
      call_modes (LeadObj example_mode_lead) 0 [] None = Inr (Some parts) \<and>
      LeadModes 0 \<in> set trace \<and>
      ModesSelfenergy 0 \<in> set trace \<and>
      LeadSelfenergy 0 \<notin> set trace \<and>
      lookup heap' 5 =
        Some (Instance ([''graph'' \<mapsto> 0, ''leads'' \<mapsto> 3](''leads'' \<mapsto> new_la))) \<and>
      lookup heap' new_la = Some (ListObj new_leads) \<and>
      lookup heap' (new_leads ! 0) = Some (PrecalculatedObj p) \<and>
      pl_modes p = Some parts \<and>
      part_selfenergy (parts ! 1) = Some (Inr (pl_selfenergy p))) \<and>
   (\<exists>trace heap' new_la new_leads p.
      precalculate example_empty_store 3 0 [] None ''all'' None = (trace, Inr (heap', 4)) \<and>
      call_modes (LeadObj example_empty_modes_lead) 0 [] None = Inr (Some []) \<and>
      LeadModes 0 \<in> set trace \<and>
      LeadSelfenergy 0 \<in> set trace \<and>
      lookup heap' new_la = Some (ListObj new_leads) \<and>
      lookup heap' (new_leads ! 0) = Some (PrecalculatedObj p) \<and>
      pl_modes p = Some [] \<and>
      call_selfenergy (LeadObj example_empty_modes_lead) 0 [] None = Inr (pl_selfenergy p))"
proof -
  let ?attrs = "[''graph'' \<mapsto> 0, ''leads'' \<mapsto> 3] :: string \<rightharpoonup> addr"
  note example_defs = precalculate_def example_store_def example_empty_store_def lookup_def
    selection_def compute_lead_def compute_modes_def compute_selfenergy_def
    getattr_modes_def getattr_selfenergy_def example_mode_lead_def
    example_selfenergy_lead_def example_empty_modes_lead_def PrecalculatedLead_def
    Let_def item1_def
  have self: "lookup example_store 4 = Some (Instance ?attrs)"
    by (simp add: example_store_def lookup_def)
  have la: "?attrs ''leads'' = Some 3" by simp
  have sl: "lookup example_store 3 = Some (ListObj [1, 2])"
    by (simp add: example_store_def lookup_def)
  have "\<exists>outcome. precalculate example_store 4 0 [] None ''selfenergy'' None =
      ([LeadSelfenergy 0, LeadSelfenergy 1], outcome)"
    by (simp add: example_defs)
  then obtain out1 where run1: "precalculate example_store 4 0 [] None ''selfenergy'' None =
      ([LeadSelfenergy 0, LeadSelfenergy 1], out1)" ..
  have called: "LeadSelfenergy 1 \<in> set [LeadSelfenergy 0, LeadSelfenergy 1]" by simp
  note t1 = precalculate_selfenergy_from_modes [OF run1 self la sl]
  from t1 [THEN conjunct1, rule_format, OF called]
  have sel1: "int 1 \<in> set (selection None (length [1, 2 :: addr]))" by (elim conjE)
  from run1 called sel1 have part1: "\<exists>trace outcome.
      precalculate example_store 4 0 [] None ''selfenergy'' None = (trace, outcome) \<and>
      LeadSelfenergy 1 \<in> set trace \<and>
      int 1 \<in> set (selection None (length [1, 2 :: addr]))"
    by (intro exI conjI)
  have "\<exists>heap'. precalculate example_store 4 0 [] (Some [0]) ''all'' None =
      ([LeadModes 0, ModesSelfenergy 0], Inr (heap', 5))"
    by (simp add: example_defs)
  then obtain heap' where run2: "precalculate example_store 4 0 [] (Some [0]) ''all'' None =
      ([LeadModes 0, ModesSelfenergy 0], Inr (heap', 5))" ..
  note t2 = precalculate_selfenergy_from_modes [OF run2 self la sl]
  from t2 [THEN conjunct2, rule_format, OF refl refl]
  obtain new_la new_leads where
    at_res: "lookup heap' 5 = Some (Instance (?attrs(''leads'' \<mapsto> new_la)))"
    and at_la: "lookup heap' new_la = Some (ListObj new_leads)"
    and each: "\<forall>nr < length [1, 2 :: addr].
        int nr \<in> set (selection (Some [0]) (length [1, 2 :: addr])) \<longrightarrow>
        (\<exists>ob m p. lookup example_store ([1, 2] ! nr) = Some ob \<and>
           LeadModes nr \<in> set [LeadModes 0, ModesSelfenergy 0] \<and>
           call_modes ob 0 [] None = Inr m \<and>
           lookup heap' (new_leads ! nr) = Some (PrecalculatedObj p) \<and>
           pl_modes p = m \<and>
           (truthy_modes m \<longrightarrow>
              (\<exists>parts. m = Some parts \<and> 1 < length parts \<and>
                 ModesSelfenergy nr \<in> set [LeadModes 0, ModesSelfenergy 0] \<and>
                 LeadSelfenergy nr \<notin> set [LeadModes 0, ModesSelfenergy 0] \<and>
                 part_selfenergy (parts ! 1) = Some (Inr (pl_selfenergy p)))) \<and>
           (\<not> truthy_modes m \<longrightarrow>
              LeadSelfenergy nr \<in> set [LeadModes 0, ModesSelfenergy 0] \<and>
              call_selfenergy ob 0 [] None = Inr (pl_selfenergy p)))"
    by (elim exE conjE)
  have p1: "(0 :: nat) < length [1, 2 :: addr]" by simp
  have p2: "int 0 \<in> set (selection (Some [0]) (length [1, 2 :: addr]))"
    by (simp add: selection_def)
  from each [rule_format, OF p1 p2] obtain ob m p where
    ob: "lookup example_store ([1, 2] ! 0) = Some ob"
    and lm: "LeadModes 0 \<in> set [LeadModes 0, ModesSelfenergy 0]"
    and m: "call_modes ob 0 [] None = Inr m"
    and at: "lookup heap' (new_leads ! 0) = Some (PrecalculatedObj p)"
    and pm: "pl_modes p = m"
    and imp: "truthy_modes m \<longrightarrow>
              (\<exists>parts. m = Some parts \<and> 1 < length parts \<and>
                 ModesSelfenergy 0 \<in> set [LeadModes 0, ModesSelfenergy 0] \<and>
                 LeadSelfenergy 0 \<notin> set [LeadModes 0, ModesSelfenergy 0] \<and>
                 part_selfenergy (parts ! 1) = Some (Inr (pl_selfenergy p)))"
    by (elim exE conjE)
  from ob have ob_eq: "ob = LeadObj example_mode_lead"
    by (simp add: lookup_def example_store_def)
  from m have t: "truthy_modes m"
    by (auto simp: ob_eq call_modes_def getattr_modes_def example_mode_lead_def)
  from imp [rule_format, OF t] obtain parts where
    parts: "m = Some parts"
    and ms: "ModesSelfenergy 0 \<in> set [LeadModes 0, ModesSelfenergy 0]"
    and no: "LeadSelfenergy 0 \<notin> set [LeadModes 0, ModesSelfenergy 0]"
    and se: "part_selfenergy (parts ! 1) = Some (Inr (pl_selfenergy p))"
    by (elim exE conjE)
  from m have m': "call_modes (LeadObj example_mode_lead) 0 [] None = Inr (Some parts)"
    by (simp only: ob_eq parts)
  from pm have pm': "pl_modes p = Some parts" by (simp only: parts)
  from run2 m' lm ms no at_res at_la at pm' se have part2:
    "\<exists>trace heap' new_la new_leads parts p.
      precalculate example_store 4 0 [] (Some [0]) ''all'' None = (trace, Inr (heap', 5)) \<and>
      call_modes (LeadObj example_mode_lead) 0 [] None = Inr (Some parts) \<and>
      LeadModes 0 \<in> set trace \<and>
      ModesSelfenergy 0 \<in> set trace \<and>
      LeadSelfenergy 0 \<notin> set trace \<and>
      lookup heap' 5 = Some (Instance (?attrs(''leads'' \<mapsto> new_la))) \<and>
      lookup heap' new_la = Some (ListObj new_leads) \<and>
      lookup heap' (new_leads ! 0) = Some (PrecalculatedObj p) \<and>
      pl_modes p = Some parts \<and>
      part_selfenergy (parts ! 1) = Some (Inr (pl_selfenergy p))"
    by (intro exI conjI)
  let ?attrs3 = "[''graph'' \<mapsto> 0, ''leads'' \<mapsto> 2] :: string \<rightharpoonup> addr"
  have self3: "lookup example_empty_store 3 = Some (Instance ?attrs3)"
    by (simp add: example_empty_store_def lookup_def)
  have la3: "?attrs3 ''leads'' = Some 2" by simp
  have sl3: "lookup example_empty_store 2 = Some (ListObj [1])"
    by (simp add: example_empty_store_def lookup_def)
  have "\<exists>heap'. precalculate example_empty_store 3 0 [] None ''all'' None =
      ([LeadModes 0, LeadSelfenergy 0], Inr (heap', 4))"
    by (simp add: example_defs)
  then obtain heap3 where run3: "precalculate example_empty_store 3 0 [] None ''all'' None =
      ([LeadModes 0, LeadSelfenergy 0], Inr (heap3, 4))" ..
  note t3 = precalculate_selfenergy_from_modes [OF run3 self3 la3 sl3]
  from t3 [THEN conjunct2, rule_format, OF refl refl]
  obtain new_la3 new_leads3 where
    at_la3: "lookup heap3 new_la3 = Some (ListObj new_leads3)"
    and each3: "\<forall>nr < length [1 :: addr].
        int nr \<in> set (selection None (length [1 :: addr])) \<longrightarrow>
        (\<exists>ob m p. lookup example_empty_store ([1] ! nr) = Some ob \<and>
           LeadModes nr \<in> set [LeadModes 0, LeadSelfenergy 0] \<and>
           call_modes ob 0 [] None = Inr m \<and>
           lookup heap3 (new_leads3 ! nr) = Some (PrecalculatedObj p) \<and>
           pl_modes p = m \<and>
           (truthy_modes m \<longrightarrow>
              (\<exists>parts. m = Some parts \<and> 1 < length parts \<and>
                 ModesSelfenergy nr \<in> set [LeadModes 0, LeadSelfenergy 0] \<and>
                 LeadSelfenergy nr \<notin> set [LeadModes 0, LeadSelfenergy 0] \<and>
                 part_selfenergy (parts ! 1) = Some (Inr (pl_selfenergy p)))) \<and>
           (\<not> truthy_modes m \<longrightarrow>
              LeadSelfenergy nr \<in> set [LeadModes 0, LeadSelfenergy 0] \<and>
              call_selfenergy ob 0 [] None = Inr (pl_selfenergy p)))"
    by (elim exE conjE)
  have q1: "(0 :: nat) < length [1 :: addr]" by simp
  have q2: "int 0 \<in> set (selection None (length [1 :: addr]))"
    by (simp add: selection_def)
  from each3 [rule_format, OF q1 q2] obtain ob3 m3 p3 where
    ob3: "lookup example_empty_store ([1] ! 0) = Some ob3"
    and lm3: "LeadModes 0 \<in> set [LeadModes 0, LeadSelfenergy 0]"
    and m3: "call_modes ob3 0 [] None = Inr m3"
    and at3: "lookup heap3 (new_leads3 ! 0) = Some (PrecalculatedObj p3)"
    and pm3: "pl_modes p3 = m3"
    and imp3: "\<not> truthy_modes m3 \<longrightarrow>
              LeadSelfenergy 0 \<in> set [LeadModes 0, LeadSelfenergy 0] \<and>
              call_selfenergy ob3 0 [] None = Inr (pl_selfenergy p3)"
    by (elim exE conjE)
  from ob3 have ob3_eq: "ob3 = LeadObj example_empty_modes_lead"
    by (simp add: lookup_def example_empty_store_def)
  from m3 have m3_eq: "m3 = Some []"
    by (auto simp: ob3_eq call_modes_def getattr_modes_def example_empty_modes_lead_def)
  then have f3: "\<not> truthy_modes m3" by simp
  from imp3 [rule_format, OF f3] have ls3: "LeadSelfenergy 0 \<in> set [LeadModes 0, LeadSelfenergy 0]"
    and se3: "call_selfenergy ob3 0 [] None = Inr (pl_selfenergy p3)"
    by simp_all
  from m3 have m3': "call_modes (LeadObj example_empty_modes_lead) 0 [] None = Inr (Some [])"
    by (simp only: ob3_eq m3_eq)
  from pm3 have pm3': "pl_modes p3 = Some []" by (simp only: m3_eq)
  from se3 have se3': "call_selfenergy (LeadObj example_empty_modes_lead) 0 [] None =
      Inr (pl_selfenergy p3)" by (simp only: ob3_eq)
  from run3 m3' lm3 ls3 at_la3 at3 pm3' se3' have part3:
    "\<exists>trace heap' new_la new_leads p.
      precalculate example_empty_store 3 0 [] None ''all'' None = (trace, Inr (heap', 4)) \<and>
      call_modes (LeadObj example_empty_modes_lead) 0 [] None = Inr (Some []) \<and>
      LeadModes 0 \<in> set trace \<and>
      LeadSelfenergy 0 \<in> set trace \<and>
      lookup heap' new_la = Some (ListObj new_leads) \<and>
      lookup heap' (new_leads ! 0) = Some (PrecalculatedObj p) \<and>
      pl_modes p = Some [] \<and>
      call_selfenergy (LeadObj example_empty_modes_lead) 0 [] None = Inr (pl_selfenergy p)"
    by (intro exI conjI)
  from part1 part2 part3 show ?thesis by (intro conjI)
qed

subsection \<open>The result is a shallow copy\<close>

text \<open>
  Claim C5.  Let \<open>self\<close> be a system object of the store, \<open>attrs\<close> its attributes and
  \<open>self_leads\<close> the entries of its list of leads.

  \<^item> For every valid \<open>what\<close>, \<^verbatim>\<open>precalculate\<close> returns whenever the entries of the list of
    leads are objects of the store and the calls made on the selected leads return.
  \<^item> Whenever it returns, the result is a new object, at an address the store did not
    have.  The store as it was is a prefix of the new store: no object of the original,
    the system and its list of leads included, has changed.
  \<^item> The attributes of the result are those of \<open>self\<close> with only \<^verbatim>\<open>leads\<close> bound anew:
    every other attribute (graph, terms, site data) is the same address, so the same
    object.  \<^verbatim>\<open>leads\<close> is a new list of the same length.
  \<^item> In that list, the entry of a selected lead is a new object, a \<^verbatim>\<open>PrecalculatedLead\<close>,
    and the entry of an unselected lead is the address the original list holds.
\<close>

theorem precalculate_shallow_copy:
  assumes self: "lookup heap self = Some (Instance attrs)"
    and la: "attrs ''leads'' = Some la"
    and sl: "lookup heap la = Some (ListObj self_leads)"
  shows
    "(what \<in> set [''modes'', ''selfenergy'', ''all''] \<and>
      (\<forall>a \<in> set self_leads. a < length heap) \<and>
      (\<forall>nr < length self_leads.
         int nr \<in> set (selection leads (length self_leads)) \<longrightarrow>
         (\<exists>ob evs p. lookup heap (self_leads ! nr) = Some ob \<and>
            compute_lead what nr ob energy args params = (evs, Inr p)))
      \<longrightarrow> (\<exists>trace heap' result.
             precalculate heap self energy args leads what params =
               (trace, Inr (heap', result)))) \<and>
     (\<forall>trace heap' result.
        precalculate heap self energy args leads what params = (trace, Inr (heap', result))
        \<longrightarrow>
        result = length heap \<and> take (length heap) heap' = heap \<and>
        (\<exists>new_la new_leads.
           lookup heap' result = Some (Instance (attrs(''leads'' \<mapsto> new_la))) \<and>
           length heap < new_la \<and>
           lookup heap' new_la = Some (ListObj new_leads) \<and>
           length new_leads = length self_leads \<and>
           (\<forall>nr < length self_leads.
              if int nr \<in> set (selection leads (length self_leads))
              then length heap < new_leads ! nr \<and>
                   (\<exists>p. lookup heap' (new_leads ! nr) = Some (PrecalculatedObj p))
              else new_leads ! nr = self_leads ! nr)))"
proof (intro conjI impI allI)
  assume pre: "what \<in> set [''modes'', ''selfenergy'', ''all''] \<and>
      (\<forall>a \<in> set self_leads. a < length heap) \<and>
      (\<forall>nr < length self_leads.
         int nr \<in> set (selection leads (length self_leads)) \<longrightarrow>
         (\<exists>ob evs p. lookup heap (self_leads ! nr) = Some ob \<and>
            compute_lead what nr ob energy args params = (evs, Inr p)))"
  from pre have w: "what \<in> set [''modes'', ''selfenergy'', ''all'']" by (rule conjunct1)
  from pre have valid: "\<forall>a \<in> set self_leads. a < length heap"
    by (rule conjunct2 [THEN conjunct1])
  from pre have ok: "\<forall>nr < length self_leads.
         int nr \<in> set (selection leads (length self_leads)) \<longrightarrow>
         (\<exists>ob evs p. lookup heap (self_leads ! nr) = Some ob \<and>
            compute_lead what nr ob energy args params = (evs, Inr p))"
    by (rule conjunct2 [THEN conjunct2])
  from precalculate_total [OF w self la sl valid ok]
  show "\<exists>trace heap' result.
             precalculate heap self energy args leads what params =
               (trace, Inr (heap', result))" by auto
next
  fix trace heap' result
  assume run: "precalculate heap self energy args leads what params =
      (trace, Inr (heap', result))"
  obtain attrs0 la0 self_leads0 new_la new_leads where
    self0: "lookup heap self = Some (Instance attrs0)"
    and la0: "attrs0 ''leads'' = Some la0"
    and sl0: "lookup heap la0 = Some (ListObj self_leads0)"
    and res: "result = length heap"
    and frame: "take (length heap) heap' = heap"
    and at_res: "lookup heap' result = Some (Instance (attrs0(''leads'' \<mapsto> new_la)))"
    and fresh: "length heap < new_la"
    and at_la: "lookup heap' new_la = Some (ListObj new_leads)"
    and len: "length new_leads = length self_leads0"
    and selected: "\<And>nr. nr < length self_leads0 \<Longrightarrow>
       int nr \<in> set (selection leads (length self_leads0)) \<Longrightarrow>
       length heap < new_leads ! nr \<and>
       (\<exists>ob evs p. lookup heap (self_leads0 ! nr) = Some ob \<and>
          compute_lead what nr ob energy args params = (evs, Inr p) \<and>
          set evs \<subseteq> set trace \<and>
          lookup heap' (new_leads ! nr) = Some (PrecalculatedObj p))"
    and unselected: "\<And>nr. nr < length self_leads0 \<Longrightarrow>
       int nr \<notin> set (selection leads (length self_leads0)) \<Longrightarrow>
       new_leads ! nr = self_leads0 ! nr"
    apply (rule precalculate_result [OF run])
    subgoal premises prems for a b c d e
      by (rule prems(1) [OF prems(2-)])
    done
  from self self0 have a0: "attrs0 = attrs" by simp
  from la la0 a0 have l0: "la0 = la" by simp
  from sl sl0 l0 have s0: "self_leads0 = self_leads" by simp
  show "result = length heap" by (rule res)
  show "take (length heap) heap' = heap" by (rule frame)
  have each: "if int nr \<in> set (selection leads (length self_leads))
              then length heap < new_leads ! nr \<and>
                   (\<exists>p. lookup heap' (new_leads ! nr) = Some (PrecalculatedObj p))
              else new_leads ! nr = self_leads ! nr" if nr: "nr < length self_leads" for nr
  proof (cases "int nr \<in> set (selection leads (length self_leads))")
    case True
    from selected [unfolded s0, OF nr True] have "length heap < new_leads ! nr \<and>
                   (\<exists>p. lookup heap' (new_leads ! nr) = Some (PrecalculatedObj p))" by auto
    with True show ?thesis by (simp only: if_True)
  next
    case False
    from unselected [unfolded s0, OF nr False] False
    show ?thesis by (simp only: if_False)
  qed
  from at_res a0 have at_res': "lookup heap' result = Some (Instance (attrs(''leads'' \<mapsto> new_la)))"
    by simp
  from len s0 have len': "length new_leads = length self_leads" by simp
  from each have all: "\<forall>nr < length self_leads.
              if int nr \<in> set (selection leads (length self_leads))
              then length heap < new_leads ! nr \<and>
                   (\<exists>p. lookup heap' (new_leads ! nr) = Some (PrecalculatedObj p))
              else new_leads ! nr = self_leads ! nr" by (intro allI impI)
  from at_res' fresh at_la len' all
  show "\<exists>new_la new_leads.
           lookup heap' result = Some (Instance (attrs(''leads'' \<mapsto> new_la))) \<and>
           length heap < new_la \<and>
           lookup heap' new_la = Some (ListObj new_leads) \<and>
           length new_leads = length self_leads \<and>
           (\<forall>nr < length self_leads.
              if int nr \<in> set (selection leads (length self_leads))
              then length heap < new_leads ! nr \<and>
                   (\<exists>p. lookup heap' (new_leads ! nr) = Some (PrecalculatedObj p))
              else new_leads ! nr = self_leads ! nr)"
    by (intro exI conjI)
qed

text \<open>
  The theorem at the example system, with the first of its two leads selected and
  \<open>what = ''all''\<close>.
\<close>

theorem precalculate_shallow_copy_witness:
  "\<exists>trace heap' new_la new_leads.
     precalculate example_store 4 0 [] (Some [0]) ''all'' None = (trace, Inr (heap', 5)) \<and>
     take 5 heap' = example_store \<and>
     lookup heap' 5 = Some (Instance ([''graph'' \<mapsto> 0, ''leads'' \<mapsto> 3](''leads'' \<mapsto> new_la))) \<and>
     5 < new_la \<and>
     lookup heap' new_la = Some (ListObj new_leads) \<and>
     length new_leads = 2 \<and>
     5 < new_leads ! 0 \<and>
     (\<exists>p. lookup heap' (new_leads ! 0) = Some (PrecalculatedObj p)) \<and>
     new_leads ! 1 = 2"
proof -
  let ?attrs = "[''graph'' \<mapsto> 0, ''leads'' \<mapsto> 3] :: string \<rightharpoonup> addr"
  have len5: "length example_store = 5" by (simp add: example_store_def)
  have self: "lookup example_store 4 = Some (Instance ?attrs)"
    by (simp add: example_store_def lookup_def)
  have la: "?attrs ''leads'' = Some 3" by simp
  have sl: "lookup example_store 3 = Some (ListObj [1, 2])"
    by (simp add: example_store_def lookup_def)
  note main = precalculate_shallow_copy [OF self la sl, where what = "''all''"
      and leads = "Some [0]" and energy = 0 and args = "[]" and params = None]
  have lead0: "compute_lead ''all'' 0 (LeadObj example_mode_lead) 0 [] None =
      ([LeadModes 0, ModesSelfenergy 0],
       Inr \<lparr>pl_modes = Some [ModePart ''propagating'' None,
                   ModePart ''stabilized'' (Some (Inr (Some example_sigma)))],
            pl_selfenergy = Some example_sigma, pl_parameters = {}\<rparr>)"
    by (simp add: compute_lead_def compute_modes_def compute_selfenergy_def getattr_modes_def
        example_mode_lead_def item1_def PrecalculatedLead_def)
  have pre: "''all'' \<in> set [''modes'', ''selfenergy'', ''all''] \<and>
      (\<forall>a \<in> set [1, 2]. a < length example_store) \<and>
      (\<forall>nr < length [1, 2 :: nat].
         int nr \<in> set (selection (Some [0]) (length [1, 2 :: nat])) \<longrightarrow>
         (\<exists>ob evs p. lookup example_store ([1, 2] ! nr) = Some ob \<and>
            compute_lead ''all'' nr ob 0 [] None = (evs, Inr p)))"
    using lead0 by (simp add: len5 selection_def lookup_def example_store_def)
  from main [THEN conjunct1, rule_format, OF pre] obtain trace heap' result where
    run: "precalculate example_store 4 0 [] (Some [0]) ''all'' None =
      (trace, Inr (heap', result))" by (elim exE)
  from main [THEN conjunct2, rule_format, OF run] obtain new_la new_leads where
    res: "result = length example_store"
    and frame: "take (length example_store) heap' = example_store"
    and at_res: "lookup heap' result = Some (Instance (?attrs(''leads'' \<mapsto> new_la)))"
    and fresh: "length example_store < new_la"
    and at_la: "lookup heap' new_la = Some (ListObj new_leads)"
    and len: "length new_leads = length [1, 2 :: nat]"
    and each: "\<forall>nr < length [1, 2 :: nat].
              if int nr \<in> set (selection (Some [0]) (length [1, 2 :: nat]))
              then length example_store < new_leads ! nr \<and>
                   (\<exists>p. lookup heap' (new_leads ! nr) = Some (PrecalculatedObj p))
              else new_leads ! nr = [1, 2] ! nr"
    by (elim conjE exE)
  from each [rule_format, of 0] have e0: "5 < new_leads ! 0 \<and>
     (\<exists>p. lookup heap' (new_leads ! 0) = Some (PrecalculatedObj p))"
    by (simp add: selection_def len5)
  from each [rule_format, of 1] have e1: "new_leads ! 1 = 2"
    by (simp add: selection_def)
  from e0 obtain p where e0a: "5 < new_leads ! 0"
    and e0b: "lookup heap' (new_leads ! 0) = Some (PrecalculatedObj p)" by (elim conjE exE)
  from run have run': "precalculate example_store 4 0 [] (Some [0]) ''all'' None =
      (trace, Inr (heap', 5))" by (simp only: res len5)
  from frame have frame': "take 5 heap' = example_store" by (simp only: len5)
  from at_res have at_res': "lookup heap' 5 = Some (Instance (?attrs(''leads'' \<mapsto> new_la)))"
    by (simp only: res len5)
  from fresh have fresh': "5 < new_la" by (simp only: len5)
  from len have len': "length new_leads = 2" by simp
  from run' frame' at_res' fresh' at_la len' e0a e0b e1 show ?thesis
    by (intro exI conjI)
qed

section \<open>Properties of \<^verbatim>\<open>cell_hamiltonian\<close> and \<^verbatim>\<open>inter_cell_hopping\<close>\<close>

subsection \<open>The assembled matrix\<close>

lemma sequence_sum_Inr: "sequence_sum rs = Inr vs \<Longrightarrow> rs = map Inr vs"
proof (induction rs arbitrary: vs rule: sequence_sum.induct)
  case 1
  then show ?case by simp
next
  case (2 e rs)
  then show ?case by simp
next
  case (3 v rs)
  from "3.prems" obtain ws where ws: "sequence_sum rs = Inr ws" and vs: "vs = v # ws"
    by (auto split: sum.splits)
  from "3.IH" [OF ws] vs show ?case by simp
qed

lemma sequence_sum_map:
  assumes "sequence_sum (map f xs) = Inr vs"
  shows "length vs = length xs" and "k < length xs \<Longrightarrow> f (xs ! k) = Inr (vs ! k)"
proof -
  from sequence_sum_Inr [OF assms] have eq: "map f xs = map Inr vs" .
  from map_eq_imp_length_eq [OF eq] show len: "length vs = length xs" by simp
  assume k: "k < length xs"
  from eq have "map f xs ! k = map Inr vs ! k" by (simp only:)
  with k len show "f (xs ! k) = Inr (vs ! k)" by simp
qed

lemma sequence_sum_total:
  "\<forall>r \<in> set rs. \<exists>v. r = Inr v \<Longrightarrow> \<exists>vs. sequence_sum rs = Inr vs"
proof (induction rs rule: sequence_sum.induct)
  case 1
  then show ?case by simp
next
  case (2 e rs)
  then show ?case by simp
next
  case (3 v rs)
  then obtain vs where "sequence_sum rs = Inr vs" by auto
  then show ?case by simp
qed

lemma block_row_length:
  assumes sh: "nd_shape h = [p, q]" and wf: "wf_ndarray h" and r: "r < p"
  shows "length (block_row h r) = q"
proof -
  from wf sh have len: "length (nd_data h) = p * q" by (simp add: wf_ndarray_def)
  from r have "Suc r \<le> p" by simp
  then have "Suc r * q \<le> p * q" by (rule mult_le_mono1)
  then have "q \<le> p * q - r * q" by simp
  with len sh show ?thesis by (simp add: block_row_def min_def)
qed

lemma site_block_shape:
  assumes "site_block self args params i j = Inr h"
  shows "nd_shape h = [orbitals self i, orbitals self j]" and "wf_ndarray h"
  using assms by (auto simp: site_block_def split: sum.splits if_splits)

lemma site_band_length:
  assumes band: "site_band self args params cols i = Inr band"
  shows "length band = orbitals self i * total_orbitals self cols"
proof -
  from band obtain blocks where
    blocks: "sequence_sum (map (site_block self args params i) cols) = Inr blocks"
    and b: "band = concat (map (\<lambda>r. concat (map (\<lambda>h. block_row h r) blocks))
                         [0..<orbitals self i])"
    by (auto simp: site_band_def split: sum.splits)
  note ss = sequence_sum_map [OF blocks]
  have row: "length (concat (map (\<lambda>h. block_row h r) blocks)) = total_orbitals self cols"
    if r: "r < orbitals self i" for r
  proof -
    have "map (\<lambda>h. length (block_row h r)) blocks = map (orbitals self) cols"
    proof (rule nth_equalityI)
      show "length (map (\<lambda>h. length (block_row h r)) blocks) = length (map (orbitals self) cols)"
        using ss(1) by simp
    next
      fix k assume "k < length (map (\<lambda>h. length (block_row h r)) blocks)"
      then have k: "k < length cols" using ss(1) by simp
      note sb = site_block_shape [OF ss(2) [OF k]]
      from block_row_length [OF sb(1) sb(2) r] k ss(1)
      show "map (\<lambda>h. length (block_row h r)) blocks ! k = map (orbitals self) cols ! k"
        by simp
    qed
    then show ?thesis by (simp add: length_concat total_orbitals_def comp_def)
  qed
  let ?F = "\<lambda>r. concat (map (\<lambda>h. block_row h r) blocks)"
  have lb: "length band = sum_list (map length (map ?F [0..<orbitals self i]))"
    by (simp only: b length_concat)
  have eq: "map length (map ?F [0..<orbitals self i]) =
        map (\<lambda>r. total_orbitals self cols) [0..<orbitals self i]"
    by (auto simp: row)
  from lb have "length band =
      sum_list (map (\<lambda>r. total_orbitals self cols) [0..<orbitals self i])"
    by (simp only: eq)
  also have "\<dots> = orbitals self i * total_orbitals self cols"
    by (simp add: sum_list_triv)
  finally show ?thesis .
qed

lemma submatrix_shape:
  assumes run: "hamiltonian_submatrix self args (Some rows) (Some cols) sparse params = Inr m"
  shows "mat_sparse m = sparse"
    and "nd_shape (mat_array m) = [total_orbitals self rows, total_orbitals self cols]"
    and "wf_ndarray (mat_array m)"
proof -
  from run obtain bands where
    bands: "sequence_sum (map (site_band self args params cols) rows) = Inr bands"
    and m: "m = Matrix sparse
        \<lparr>nd_shape = [total_orbitals self rows, total_orbitals self cols],
         nd_data = concat bands\<rparr>"
    by (auto simp: hamiltonian_submatrix_def Let_def split: sum.splits)
  from m show "mat_sparse m = sparse" by simp
  from m show "nd_shape (mat_array m) = [total_orbitals self rows, total_orbitals self cols]"
    by simp
  note ss = sequence_sum_map [OF bands]
  have "map length bands = map (\<lambda>i. orbitals self i * total_orbitals self cols) rows"
  proof (rule nth_equalityI)
    show "length (map length bands) =
        length (map (\<lambda>i. orbitals self i * total_orbitals self cols) rows)"
      using ss(1) by simp
  next
    fix k assume "k < length (map length bands)"
    then have k: "k < length rows" using ss(1) by simp
    from site_band_length [OF ss(2) [OF k]] k ss(1)
    show "map length bands ! k =
        map (\<lambda>i. orbitals self i * total_orbitals self cols) rows ! k" by simp
  qed
  then have "length (concat bands) = total_orbitals self rows * total_orbitals self cols"
    by (simp add: length_concat sum_list_mult_const total_orbitals_def [of self rows])
  with m show "wf_ndarray (mat_array m)" by (simp add: wf_ndarray_def)
qed

lemma submatrix_total:
  assumes ok: "\<forall>i \<in> set rows. \<forall>j \<in> set cols. \<exists>h.
      hamiltonian self i j args params = Inr h \<and>
      nd_shape h = [orbitals self i, orbitals self j] \<and> wf_ndarray h"
  shows "\<exists>m. hamiltonian_submatrix self args (Some rows) (Some cols) sparse params = Inr m"
proof -
  have band: "\<exists>v. site_band self args params cols i = Inr v" if i: "i \<in> set rows" for i
  proof -
    have "\<forall>r \<in> set (map (site_block self args params i) cols). \<exists>v. r = Inr v"
    proof
      fix r assume "r \<in> set (map (site_block self args params i) cols)"
      then obtain j where j: "j \<in> set cols" and r: "r = site_block self args params i j"
        by auto
      from ok i j obtain h where "hamiltonian self i j args params = Inr h"
        "nd_shape h = [orbitals self i, orbitals self j]" "wf_ndarray h" by blast
      then show "\<exists>v. r = Inr v" by (simp add: r site_block_def)
    qed
    from sequence_sum_total [OF this] obtain blocks where
      "sequence_sum (map (site_block self args params i) cols) = Inr blocks" ..
    then show ?thesis by (simp add: site_band_def)
  qed
  have "\<forall>r \<in> set (map (site_band self args params cols) rows). \<exists>v. r = Inr v"
  proof
    fix r assume "r \<in> set (map (site_band self args params cols) rows)"
    then obtain i where "i \<in> set rows" and "r = site_band self args params cols i" by auto
    with band show "\<exists>v. r = Inr v" by simp
  qed
  from sequence_sum_total [OF this] obtain bands where
    "sequence_sum (map (site_band self args params cols) rows) = Inr bands" ..
  then show ?thesis by (simp add: hamiltonian_submatrix_def)
qed

subsection \<open>The two blocks of an infinite system\<close>

text \<open>
  Claim C8.  For an infinite system with \<^verbatim>\<open>cell_size\<close> \<open>c\<close> and a graph of \<open>N\<close> nodes:

  \<^item> \<^verbatim>\<open>cell_hamiltonian\<close> is the Hamiltonian submatrix whose rows and columns are both
    the sites \<open>0, \<dots>, c - 1\<close>, and \<^verbatim>\<open>inter_cell_hopping\<close> is the one whose rows are
    the sites \<open>0, \<dots>, c - 1\<close> and whose columns are the sites \<open>c, \<dots>, N - 1\<close>, with the
    same \<^verbatim>\<open>args\<close>, \<^verbatim>\<open>sparse\<close> and \<^verbatim>\<open>params\<close>.
  \<^item> What \<^verbatim>\<open>cell_hamiltonian\<close> returns is a square matrix whose size is the total of
    the orbitals of the cell sites; what \<^verbatim>\<open>inter_cell_hopping\<close> returns has as many
    rows as the cell sites have orbitals and as many columns as the interface sites
    have.  In both, the entries fill the shape.
  \<^item> Both return when \<open>0 \<le> c \<le> N\<close> and \<^verbatim>\<open>hamiltonian\<close> gives, for every two sites of
    the graph, a block of the shape that the orbitals of the two sites require.
\<close>

theorem cell_hamiltonian_and_hopping_blocks:
  "cell_hamiltonian self args sparse params =
     hamiltonian_submatrix self args (Some [0..cell_size self - 1])
       (Some [0..cell_size self - 1]) sparse params \<and>
   inter_cell_hopping self args sparse params =
     hamiltonian_submatrix self args (Some [0..cell_size self - 1])
       (Some [cell_size self..graph_num_nodes self - 1]) sparse params \<and>
   (\<forall>m. cell_hamiltonian self args sparse params = Inr m \<longrightarrow>
      nd_shape (mat_array m) =
        [total_orbitals self [0..cell_size self - 1],
         total_orbitals self [0..cell_size self - 1]] \<and>
      wf_ndarray (mat_array m)) \<and>
   (\<forall>m. inter_cell_hopping self args sparse params = Inr m \<longrightarrow>
      nd_shape (mat_array m) =
        [total_orbitals self [0..cell_size self - 1],
         total_orbitals self [cell_size self..graph_num_nodes self - 1]] \<and>
      wf_ndarray (mat_array m)) \<and>
   ((\<forall>i \<in> set [0..graph_num_nodes self - 1]. \<forall>j \<in> set [0..graph_num_nodes self - 1].
       \<exists>h. hamiltonian self i j args params = Inr h \<and>
           nd_shape h = [orbitals self i, orbitals self j] \<and> wf_ndarray h) \<and>
    0 \<le> cell_size self \<and> cell_size self \<le> graph_num_nodes self \<longrightarrow>
    (\<exists>m. cell_hamiltonian self args sparse params = Inr m) \<and>
    (\<exists>m. inter_cell_hopping self args sparse params = Inr m))"
proof -
  let ?c = "cell_size self" and ?n = "graph_num_nodes self"
  have cell: "cell_hamiltonian self args sparse params =
     hamiltonian_submatrix self args (Some [0..?c - 1]) (Some [0..?c - 1]) sparse params"
    by (simp only: cell_hamiltonian_def Let_def)
  have hop: "inter_cell_hopping self args sparse params =
     hamiltonian_submatrix self args (Some [0..?c - 1]) (Some [?c..?n - 1]) sparse params"
    by (simp only: inter_cell_hopping_def Let_def)
  have cell_shape: "nd_shape (mat_array m) =
        [total_orbitals self [0..?c - 1], total_orbitals self [0..?c - 1]] \<and>
      wf_ndarray (mat_array m)"
    if "cell_hamiltonian self args sparse params = Inr m" for m
  proof -
    from that cell have run: "hamiltonian_submatrix self args (Some [0..?c - 1])
        (Some [0..?c - 1]) sparse params = Inr m" by (simp only:)
    from submatrix_shape(2) [OF run] submatrix_shape(3) [OF run] show ?thesis by (rule conjI)
  qed
  have hop_shape: "nd_shape (mat_array m) =
        [total_orbitals self [0..?c - 1], total_orbitals self [?c..?n - 1]] \<and>
      wf_ndarray (mat_array m)"
    if "inter_cell_hopping self args sparse params = Inr m" for m
  proof -
    from that hop have run: "hamiltonian_submatrix self args (Some [0..?c - 1])
        (Some [?c..?n - 1]) sparse params = Inr m" by (simp only:)
    from submatrix_shape(2) [OF run] submatrix_shape(3) [OF run] show ?thesis by (rule conjI)
  qed
  have total: "(\<exists>m. cell_hamiltonian self args sparse params = Inr m) \<and>
    (\<exists>m. inter_cell_hopping self args sparse params = Inr m)"
    if pre: "(\<forall>i \<in> set [0..?n - 1]. \<forall>j \<in> set [0..?n - 1].
       \<exists>h. hamiltonian self i j args params = Inr h \<and>
           nd_shape h = [orbitals self i, orbitals self j] \<and> wf_ndarray h) \<and>
      0 \<le> ?c \<and> ?c \<le> ?n"
  proof -
    from pre have ok: "\<forall>i \<in> set [0..?n - 1]. \<forall>j \<in> set [0..?n - 1].
       \<exists>h. hamiltonian self i j args params = Inr h \<and>
           nd_shape h = [orbitals self i, orbitals self j] \<and> wf_ndarray h"
      by (rule conjunct1)
    from pre have ge: "0 \<le> ?c" by (rule conjunct2 [THEN conjunct1])
    from pre have le: "?c \<le> ?n" by (rule conjunct2 [THEN conjunct2])
    from le have sub1: "set [0..?c - 1] \<subseteq> set [0..?n - 1]" by auto
    from ge have sub2: "set [?c..?n - 1] \<subseteq> set [0..?n - 1]" by auto
    from ok sub1 have ok1: "\<forall>i \<in> set [0..?c - 1]. \<forall>j \<in> set [0..?c - 1].
       \<exists>h. hamiltonian self i j args params = Inr h \<and>
           nd_shape h = [orbitals self i, orbitals self j] \<and> wf_ndarray h"
      by (meson subsetD)
    from ok sub1 sub2 have ok2: "\<forall>i \<in> set [0..?c - 1]. \<forall>j \<in> set [?c..?n - 1].
       \<exists>h. hamiltonian self i j args params = Inr h \<and>
           nd_shape h = [orbitals self i, orbitals self j] \<and> wf_ndarray h"
      by (meson subsetD)
    from submatrix_total [OF ok1, of sparse] have r1:
      "\<exists>m. cell_hamiltonian self args sparse params = Inr m" by (simp only: cell)
    from submatrix_total [OF ok2, of sparse] have r2:
      "\<exists>m. inter_cell_hopping self args sparse params = Inr m" by (simp only: hop)
    from r1 r2 show ?thesis by (rule conjI)
  qed
  from cell_shape have c3: "\<forall>m. cell_hamiltonian self args sparse params = Inr m \<longrightarrow>
      nd_shape (mat_array m) =
        [total_orbitals self [0..?c - 1], total_orbitals self [0..?c - 1]] \<and>
      wf_ndarray (mat_array m)" by (intro allI impI)
  from hop_shape have c4: "\<forall>m. inter_cell_hopping self args sparse params = Inr m \<longrightarrow>
      nd_shape (mat_array m) =
        [total_orbitals self [0..?c - 1], total_orbitals self [?c..?n - 1]] \<and>
      wf_ndarray (mat_array m)" by (intro allI impI)
  from total have c5: "(\<forall>i \<in> set [0..?n - 1]. \<forall>j \<in> set [0..?n - 1].
       \<exists>h. hamiltonian self i j args params = Inr h \<and>
           nd_shape h = [orbitals self i, orbitals self j] \<and> wf_ndarray h) \<and>
      0 \<le> ?c \<and> ?c \<le> ?n \<longrightarrow>
    (\<exists>m. cell_hamiltonian self args sparse params = Inr m) \<and>
    (\<exists>m. inter_cell_hopping self args sparse params = Inr m)" by (intro impI)
  from cell hop c3 c4 c5 show ?thesis by (intro conjI)
qed

text \<open>
  The theorem at the example system: three orbitals in the cell, one at the interface.
\<close>

theorem cell_hamiltonian_and_hopping_blocks_witness:
  "(\<exists>m. cell_hamiltonian example_chain [] False None = Inr m \<and>
        nd_shape (mat_array m) = [3, 3] \<and> wf_ndarray (mat_array m)) \<and>
   (\<exists>m. inter_cell_hopping example_chain [] False None = Inr m \<and>
        nd_shape (mat_array m) = [3, 1] \<and> wf_ndarray (mat_array m))"
proof -
  note main = cell_hamiltonian_and_hopping_blocks [of example_chain "[]" False None]
  have pre: "(\<forall>i \<in> set [0..graph_num_nodes example_chain - 1].
       \<forall>j \<in> set [0..graph_num_nodes example_chain - 1].
       \<exists>h. hamiltonian example_chain i j [] None = Inr h \<and>
           nd_shape h = [orbitals example_chain i, orbitals example_chain j] \<and>
           wf_ndarray h) \<and>
      0 \<le> cell_size example_chain \<and> cell_size example_chain \<le> graph_num_nodes example_chain"
    by (simp add: example_chain_def wf_ndarray_def)
  have cell_orbitals: "total_orbitals example_chain [0..cell_size example_chain - 1] = 3"
    by (simp add: total_orbitals_def example_chain_def example_orbitals_def upto.simps)
  have interface_orbitals: "total_orbitals example_chain
      [cell_size example_chain..graph_num_nodes example_chain - 1] = 1"
    by (simp add: total_orbitals_def example_chain_def example_orbitals_def upto.simps)
  from main [THEN conjunct2, THEN conjunct2, THEN conjunct2, THEN conjunct2, THEN mp, OF pre]
  obtain m1 m2 where m1: "cell_hamiltonian example_chain [] False None = Inr m1"
    and m2: "inter_cell_hopping example_chain [] False None = Inr m2"
    by (elim conjE exE)
  from main [THEN conjunct2, THEN conjunct2, THEN conjunct1, rule_format, OF m1]
  have s1: "nd_shape (mat_array m1) = [3, 3] \<and> wf_ndarray (mat_array m1)"
    by (simp only: cell_orbitals)
  from main [THEN conjunct2, THEN conjunct2, THEN conjunct2, THEN conjunct1, rule_format, OF m2]
  have s2: "nd_shape (mat_array m2) = [3, 1] \<and> wf_ndarray (mat_array m2)"
    by (simp only: cell_orbitals interface_orbitals)
  from m1 s1 have p1: "\<exists>m. cell_hamiltonian example_chain [] False None = Inr m \<and>
        nd_shape (mat_array m) = [3, 3] \<and> wf_ndarray (mat_array m)" by blast
  from m2 s2 have p2: "\<exists>m. inter_cell_hopping example_chain [] False None = Inr m \<and>
        nd_shape (mat_array m) = [3, 1] \<and> wf_ndarray (mat_array m)" by blast
  from p1 p2 show ?thesis by (rule conjI)
qed

end
